theory Spec2Isabelle
  imports Main "HOL-Library.List_Lexorder"
begin

section \<open>Text and the Python runtime\<close>

text \<open>
  A Python \<open>str\<close> is a sequence of Unicode code points. Texts are modelled as lists of
  code points; \<open>ustr\<close> turns an ASCII literal into such a list. Python compares and sorts
  strings lexicographically by code point, which is the order \<open>List_Lexorder\<close> gives.
\<close>

type_synonym uchar = nat
type_synonym ustring = "uchar list"

definition ustr :: "string \<Rightarrow> ustring" where
  "ustr s = map of_char s"

text \<open>
  What the source takes from the interpreter rather than defining itself is a parameter of
  the model: the Unicode tables behind \<open>unicodedata.normalize("NFKC", _)\<close>,
  \<open>str.lower\<close>, \<open>str.isspace\<close> (also \<open>\s\<close> and \<open>str.strip\<close>), \<open>\d\<close>,
  \<open>str.isdigit\<close>, \<open>\w\<close>, \<open>str.title\<close>, the parser behind \<open>int(_)\<close>, and the order in which
  the two \<open>set\<close> constants \<open>STRICT_ONLY_KEYS\<close> and \<open>PREFIX_OK_KEYS\<close> are iterated
  (it depends on the string hash seed of the process).
\<close>

record runtime =
  nfkc :: "ustring \<Rightarrow> ustring"
  str_lower :: "ustring \<Rightarrow> ustring"
  isspace :: "uchar \<Rightarrow> bool"
  isdecimal :: "uchar \<Rightarrow> bool"
  isdigit :: "uchar \<Rightarrow> bool"
  isalnum :: "uchar \<Rightarrow> bool"
  py_int :: "ustring \<Rightarrow> int option"
  str_title :: "ustring \<Rightarrow> ustring"
  strict_iter :: "ustring list"
  prefix_iter :: "ustring list"

datatype py_error = IndexError | ValueError

subsection \<open>String methods\<close>

definition lstrip :: "runtime \<Rightarrow> ustring \<Rightarrow> ustring" where
  "lstrip U s = dropWhile (isspace U) s"

definition rstrip :: "runtime \<Rightarrow> ustring \<Rightarrow> ustring" where
  "rstrip U s = rev (dropWhile (isspace U) (rev s))"

definition strip :: "runtime \<Rightarrow> ustring \<Rightarrow> ustring" where
  "strip U s = rstrip U (lstrip U s)"

definition replace_char :: "uchar \<Rightarrow> uchar \<Rightarrow> ustring \<Rightarrow> ustring" where
  "replace_char a b s = map (\<lambda>c. if c = a then b else c) s"

definition startswith :: "ustring \<Rightarrow> ustring \<Rightarrow> bool" where
  "startswith s p = (take (length p) s = p)"

fun contains :: "ustring \<Rightarrow> ustring \<Rightarrow> bool" where
  "contains [] p = (p = [])"
| "contains (c # s) p = (startswith (c # s) p \<or> contains s p)"

fun join :: "ustring \<Rightarrow> ustring list \<Rightarrow> ustring" where
  "join sep [] = []"
| "join sep [x] = x"
| "join sep (x # y # xs) = x @ sep @ join sep (y # xs)"

fun split_char :: "uchar \<Rightarrow> ustring \<Rightarrow> ustring list" where
  "split_char d [] = [[]]"
| "split_char d (c # s) =
     (if c = d then [] # split_char d s
      else (case split_char d s of [] \<Rightarrow> [[c]] | p # ps \<Rightarrow> (c # p) # ps))"

definition count_char :: "uchar \<Rightarrow> ustring \<Rightarrow> nat" where
  "count_char d s = length (filter (\<lambda>c. c = d) s)"

definition str_isdigit :: "runtime \<Rightarrow> ustring \<Rightarrow> bool" where
  "str_isdigit U s = (s \<noteq> [] \<and> list_all (isdigit U) s)"

text \<open>\<open>str(n)\<close> for an integer: decimal digits, most significant first.\<close>

fun digits_fuel :: "nat \<Rightarrow> nat \<Rightarrow> ustring" where
  "digits_fuel 0 n = []"
| "digits_fuel (Suc f) n =
     (if n < 10 then [48 + n] else digits_fuel f (n div 10) @ [48 + n mod 10])"

definition str_nat :: "nat \<Rightarrow> ustring" where
  "str_nat n = digits_fuel (Suc n) n"

definition str_int :: "int \<Rightarrow> ustring" where
  "str_int i = (if i < 0 then 45 # str_nat (nat (- i)) else str_nat (nat i))"

text \<open>
  A slice \<open>xs[a:b]\<close>: negative bounds count from the end, and both bounds are clamped
  to the list.
\<close>

definition slice_bound :: "nat \<Rightarrow> int \<Rightarrow> nat" where
  "slice_bound n i = (if i < 0 then nat (max 0 (int n + i)) else min n (nat i))"

definition py_slice :: "'a list \<Rightarrow> int \<Rightarrow> int \<Rightarrow> 'a list" where
  "py_slice xs a b =
     (let lo = slice_bound (length xs) a; hi = slice_bound (length xs) b
      in take (hi - lo) (drop lo xs))"

section \<open>Regular expressions\<close>

text \<open>
  The patterns of the source are written as terms of \<open>regex\<close> and run by a backtracking
  matcher. A cursor is the character before the position (for \<open>^\<close> and \<open>\b\<close>), the rest
  of the subject, and the groups captured so far. \<open>rmatch\<close> lists the cursors at which a
  match can end, in the order in which a backtracking engine tries them: the head is the
  match that \<open>re\<close> reports. A repetition gives up an iteration that consumes nothing; no
  pattern of the source has a repeated part that can match the empty string.
\<close>

datatype citem = CChar uchar | CRange uchar uchar | CSpace | CDigit | CWord

datatype regex =
    Lit uchar
  | Dot
  | Cls "citem list"
  | NCls "citem list"
  | Seq regex regex
  | Alt regex regex
  | Star regex
  | LazyStar regex
  | Bol
  | Eol
  | WordB
  | Grp regex
  | Eps

type_synonym cursor = "uchar option \<times> ustring \<times> ustring list"

definition is_word :: "runtime \<Rightarrow> uchar \<Rightarrow> bool" where
  "is_word U c = (isalnum U c \<or> c = 95)"

fun citem_has :: "runtime \<Rightarrow> citem \<Rightarrow> uchar \<Rightarrow> bool" where
  "citem_has U (CChar a) c = (c = a)"
| "citem_has U (CRange a b) c = (a \<le> c \<and> c \<le> b)"
| "citem_has U CSpace c = isspace U c"
| "citem_has U CDigit c = isdecimal U c"
| "citem_has U CWord c = is_word U c"

definition step_if :: "(uchar \<Rightarrow> bool) \<Rightarrow> cursor \<Rightarrow> cursor list" where
  "step_if P cur =
     (case cur of (prev, s, caps) \<Rightarrow>
        (case s of [] \<Rightarrow> [] | c # s' \<Rightarrow> if P c then [(Some c, s', caps)] else []))"

definition remaining :: "cursor \<Rightarrow> nat" where
  "remaining cur = length (fst (snd cur))"

definition word_before :: "runtime \<Rightarrow> cursor \<Rightarrow> bool" where
  "word_before U cur = (case fst cur of None \<Rightarrow> False | Some c \<Rightarrow> is_word U c)"

definition word_after :: "runtime \<Rightarrow> cursor \<Rightarrow> bool" where
  "word_after U cur = (case fst (snd cur) of [] \<Rightarrow> False | c # _ \<Rightarrow> is_word U c)"

fun iter_greedy :: "(cursor \<Rightarrow> cursor list) \<Rightarrow> nat \<Rightarrow> cursor \<Rightarrow> cursor list" where
  "iter_greedy f 0 cur = [cur]"
| "iter_greedy f (Suc n) cur =
     concat (map (\<lambda>c'. if remaining c' < remaining cur then iter_greedy f n c' else [])
                 (f cur)) @ [cur]"

fun iter_lazy :: "(cursor \<Rightarrow> cursor list) \<Rightarrow> nat \<Rightarrow> cursor \<Rightarrow> cursor list" where
  "iter_lazy f 0 cur = [cur]"
| "iter_lazy f (Suc n) cur =
     cur # concat (map (\<lambda>c'. if remaining c' < remaining cur then iter_lazy f n c' else [])
                       (f cur))"

definition capture :: "cursor \<Rightarrow> cursor \<Rightarrow> cursor" where
  "capture cur c' =
     (case c' of (prev', s', caps') \<Rightarrow>
        (prev', s', caps' @ [take (remaining cur - length s') (fst (snd cur))]))"

primrec rmatch :: "runtime \<Rightarrow> regex \<Rightarrow> cursor \<Rightarrow> cursor list" where
  "rmatch U (Lit a) cur = step_if (\<lambda>c. c = a) cur"
| "rmatch U Dot cur = step_if (\<lambda>c. c \<noteq> 10) cur"
| "rmatch U (Cls items) cur = step_if (\<lambda>c. list_ex (\<lambda>i. citem_has U i c) items) cur"
| "rmatch U (NCls items) cur = step_if (\<lambda>c. \<not> list_ex (\<lambda>i. citem_has U i c) items) cur"
| "rmatch U (Seq r1 r2) cur = concat (map (rmatch U r2) (rmatch U r1 cur))"
| "rmatch U (Alt r1 r2) cur = rmatch U r1 cur @ rmatch U r2 cur"
| "rmatch U (Star r) cur = iter_greedy (rmatch U r) (remaining cur) cur"
| "rmatch U (LazyStar r) cur = iter_lazy (rmatch U r) (remaining cur) cur"
| "rmatch U Bol cur = (if fst cur = None then [cur] else [])"
| "rmatch U Eol cur = (if fst (snd cur) = [] \<or> fst (snd cur) = [10] then [cur] else [])"
| "rmatch U WordB cur = (if word_before U cur \<noteq> word_after U cur then [cur] else [])"
| "rmatch U (Grp r) cur = map (capture cur) (rmatch U r cur)"
| "rmatch U Eps cur = [cur]"

text \<open>Abbreviations for the pattern syntax.\<close>

definition seqs :: "regex list \<Rightarrow> regex" where
  "seqs rs = foldr Seq rs Eps"

fun alts :: "regex list \<Rightarrow> regex" where
  "alts [] = Cls []"
| "alts [r] = r"
| "alts (r # rs) = Alt r (alts rs)"

definition lits :: "ustring \<Rightarrow> regex" where
  "lits s = seqs (map Lit s)"

definition rplus :: "regex \<Rightarrow> regex" where
  "rplus r = Seq r (Star r)"

definition ropt :: "regex \<Rightarrow> regex" where
  "ropt r = Alt r Eps"

primrec upto_n :: "nat \<Rightarrow> regex \<Rightarrow> regex" where
  "upto_n 0 r = Eps"
| "upto_n (Suc n) r = ropt (Seq r (upto_n n r))"

primrec rrep :: "nat \<Rightarrow> regex \<Rightarrow> regex" where
  "rrep 0 r = Eps"
| "rrep (Suc n) r = Seq r (rrep n r)"

text \<open>
  \<open>re.match\<close> tries the start of the subject only; \<open>re.search\<close> tries every position
  from the left. \<open>re_scan\<close> is the left-to-right scan behind \<open>re.findall\<close> and
  \<open>re.sub\<close>: at each position the first match, if it is not empty, is taken and the
  scan goes on behind it; otherwise one character is passed over. (No pattern that the
  source gives to \<open>findall\<close> or \<open>sub\<close> can match the empty string.)
\<close>

definition first_match :: "runtime \<Rightarrow> regex \<Rightarrow> cursor \<Rightarrow> cursor option" where
  "first_match U r cur = (case rmatch U r cur of [] \<Rightarrow> None | c # _ \<Rightarrow> Some c)"

definition re_match :: "runtime \<Rightarrow> regex \<Rightarrow> ustring \<Rightarrow> cursor option" where
  "re_match U r s = first_match U r (None, s, [])"

fun search_from :: "runtime \<Rightarrow> regex \<Rightarrow> uchar option \<Rightarrow> ustring \<Rightarrow> cursor option" where
  "search_from U r prev [] = first_match U r (prev, [], [])"
| "search_from U r prev (c # s) =
     (case first_match U r (prev, c # s, []) of
        Some m \<Rightarrow> Some m
      | None \<Rightarrow> search_from U r (Some c) s)"

definition re_search :: "runtime \<Rightarrow> regex \<Rightarrow> ustring \<Rightarrow> cursor option" where
  "re_search U r s = search_from U r None s"

definition groups :: "cursor \<Rightarrow> ustring list" where
  "groups cur = snd (snd cur)"

datatype seg = Plain uchar | Matched ustring "ustring list"

function re_scan :: "runtime \<Rightarrow> regex \<Rightarrow> uchar option \<Rightarrow> ustring \<Rightarrow> seg list" where
  "re_scan U r prev s =
     (case first_match U r (prev, s, []) of
        Some (prev', s', caps) \<Rightarrow>
          if length s' < length s
          then Matched (take (length s - length s') s) caps # re_scan U r prev' s'
          else (case s of [] \<Rightarrow> [] | c # t \<Rightarrow> Plain c # re_scan U r (Some c) t)
      | None \<Rightarrow> (case s of [] \<Rightarrow> [] | c # t \<Rightarrow> Plain c # re_scan U r (Some c) t))"
  by pat_completeness auto
termination
  by (relation "measure (\<lambda>(U, r, prev, s). length s)") auto

declare re_scan.simps [simp del]

definition re_findall :: "runtime \<Rightarrow> regex \<Rightarrow> ustring \<Rightarrow> (ustring \<times> ustring list) list" where
  "re_findall U r s =
     concat (map (\<lambda>g. case g of Plain c \<Rightarrow> [] | Matched m caps \<Rightarrow> [(m, caps)])
                 (re_scan U r None s))"

definition re_sub :: "runtime \<Rightarrow> regex \<Rightarrow> ustring \<Rightarrow> ustring \<Rightarrow> ustring" where
  "re_sub U r repl s =
     concat (map (\<lambda>g. case g of Plain c \<Rightarrow> [c] | Matched m caps \<Rightarrow> repl)
                 (re_scan U r None s))"

section \<open>The extractor: normalisation and line shapes\<close>

text \<open>Character classes and pieces shared by the patterns of \<open>docx_extractor.py\<close>.\<close>

definition sp :: regex where
  "sp = Cls [CSpace]"

definition dg :: regex where
  "dg = Cls [CDigit]"

definition lower_de :: regex where
  \<comment> \<open>\<open>[a-z\<auml>\<ouml>\<uuml>\<ss>]\<close>\<close>
  "lower_de = Cls [CRange 97 122, CChar 228, CChar 246, CChar 252, CChar 223]"

definition dotted_number :: regex where
  \<comment> \<open>\<open>\d+(\.\d+)*\<close>\<close>
  "dotted_number = Seq (rplus dg) (Star (Seq (Lit 46) (rplus dg)))"

definition NUMBERING_RE :: regex where
  \<comment> \<open>\<open>^\s*(\d+(?:\.\d+)*)(?:\.)?\s+(.+)$\<close>\<close>
  "NUMBERING_RE =
     seqs [Bol, Star sp, Grp dotted_number, ropt (Lit 46), rplus sp, Grp (rplus Dot), Eol]"

definition spaces_re :: regex where
  \<comment> \<open>\<open>\s+\<close>\<close>
  "spaces_re = rplus sp"

definition leading_number_re :: regex where
  \<comment> \<open>\<open>^\s*\d+(?:\.\d+)*\s*[\.\)]?\s*\<close>\<close>
  "leading_number_re =
     seqs [Bol, Star sp, dotted_number, Star sp, ropt (Cls [CChar 46, CChar 41]), Star sp]"

definition trailing_punct_re :: regex where
  \<comment> \<open>\<open>[\s:;.\-\<endash>\<emdash>]+$\<close>, the two dashes being U+2013 and U+2014\<close>
  "trailing_punct_re =
     Seq (rplus (Cls [CSpace, CChar 58, CChar 59, CChar 46, CChar 45, CChar 8211, CChar 8212]))
         Eol"

definition normalize_simple :: "runtime \<Rightarrow> ustring \<Rightarrow> ustring" where
  "normalize_simple U s =
     (let s1 = nfkc U s;
          s2 = replace_char 160 32 s1
      in str_lower U (strip U (re_sub U spaces_re [32] s2)))"

definition normalize_title :: "runtime \<Rightarrow> ustring \<Rightarrow> ustring" where
  "normalize_title U title =
     (let t1 = nfkc U title;
          t2 = replace_char 160 32 t1;
          t3 = str_lower U (strip U t2);
          t4 = re_sub U leading_number_re [] t3;
          t5 = strip U (re_sub U trailing_punct_re [] t4)
      in strip U (re_sub U spaces_re [32] t5))"

definition dot_leader_re :: regex where
  \<comment> \<open>\<open>\.{3,}\<close>\<close>
  "dot_leader_re = seqs [Lit 46, Lit 46, Lit 46, Star (Lit 46)]"

definition page_number :: regex where
  \<comment> \<open>\<open>\d{1,4}\<close>\<close>
  "page_number = Seq dg (upto_n 3 dg)"

definition toc_glued_re :: regex where
  \<comment> \<open>\<open>^\d+(\.\d+)*[a-z\<auml>\<ouml>\<uuml>\<ss>].*\d{1,4}$\<close>\<close>
  "toc_glued_re = seqs [Bol, dotted_number, lower_de, Star Dot, page_number, Eol]"

definition toc_numbered_re :: regex where
  \<comment> \<open>\<open>^\d+(\.\d+)*\s+.+\s+\d{1,4}$\<close>\<close>
  "toc_numbered_re = seqs [Bol, dotted_number, rplus sp, rplus Dot, rplus sp, page_number, Eol]"

definition toc_plain_re :: regex where
  \<comment> \<open>\<open>^[a-z\<auml>\<ouml>\<uuml>\<ss>].+\s+\d{1,4}$\<close>\<close>
  "toc_plain_re = seqs [Bol, lower_de, rplus Dot, rplus sp, page_number, Eol]"

definition looks_like_toc_line :: "runtime \<Rightarrow> ustring \<Rightarrow> bool" where
  "looks_like_toc_line U p =
     (let t = normalize_simple U p
      in if t = [] then False
         else if contains t (ustr ''....'') \<or> re_search U dot_leader_re t \<noteq> None then True
         else if re_match U toc_glued_re t \<noteq> None then True
         else if re_match U toc_numbered_re t \<noteq> None then True
         else if re_match U toc_plain_re t \<noteq> None then True
         else False)"

subsection \<open>The table-of-contents range\<close>

definition slice_nat :: "'a list \<Rightarrow> nat \<Rightarrow> nat \<Rightarrow> 'a list" where
  \<comment> \<open>\<open>xs[a:b]\<close> for bounds that are not negative\<close>
  "slice_nat xs a b = take (b - a) (drop a xs)"

fun find_title_index :: "runtime \<Rightarrow> ustring list \<Rightarrow> nat \<Rightarrow> nat option" where
  "find_title_index U [] i = None"
| "find_title_index U (p # ps) i =
     (if normalize_simple U p = ustr ''inhaltsverzeichnis'' then Some i
      else find_title_index U ps (Suc i))"

definition toc_window :: "runtime \<Rightarrow> ustring list \<Rightarrow> nat \<Rightarrow> nat \<Rightarrow> ustring list" where
  "toc_window U paragraphs max_scan j =
     filter (\<lambda>x. normalize_simple U x \<noteq> []) (slice_nat paragraphs j (min max_scan (j + 8)))"

definition non_toc :: "runtime \<Rightarrow> ustring list \<Rightarrow> nat" where
  "non_toc U window = length (filter (\<lambda>x. \<not> looks_like_toc_line U x) window)"

fun toc_scan :: "runtime \<Rightarrow> ustring list \<Rightarrow> nat \<Rightarrow> nat list \<Rightarrow> nat option" where
  "toc_scan U paragraphs max_scan [] = None"
| "toc_scan U paragraphs max_scan (j # js) =
     (let window = toc_window U paragraphs max_scan j
      in if window = [] then toc_scan U paragraphs max_scan js
         else if non_toc U window \<ge> 5 then Some j
         else toc_scan U paragraphs max_scan js)"

definition find_toc_range :: "runtime \<Rightarrow> ustring list \<Rightarrow> (nat \<times> nat) option" where
  "find_toc_range U paragraphs =
     (case find_title_index U paragraphs 0 of
        None \<Rightarrow> None
      | Some toc_start \<Rightarrow>
          (let max_scan = min (length paragraphs) (toc_start + 500)
           in case toc_scan U paragraphs max_scan [toc_start + 1 ..< max_scan] of
                Some j \<Rightarrow> Some (toc_start, j)
              | None \<Rightarrow> Some (toc_start, min (length paragraphs) (toc_start + 250))))"

section \<open>Section keys\<close>

definition SECTION_KEYWORDS :: "(ustring \<times> ustring list) list" where
  "SECTION_KEYWORDS =
     [(ustr ''abstract'', [ustr ''abstract'', ustr ''kurzfassung'', ustr ''executive summary'']),
      (ustr ''abkuerzungen'',
         [ustr ''abk'' @ [252] @ ustr ''rzungsverzeichnis'',
          ustr ''abkuerzungsverzeichnis'',
          ustr ''abk'' @ [252] @ ustr ''rzungen'',
          ustr ''abkuerzungen'',
          ustr ''list of abbreviations'',
          ustr ''abbreviations'']),
      (ustr ''einleitung'', [ustr ''einleitung'', ustr ''introduction'']),
      (ustr ''theorie'',
         [ustr ''theorie'',
          ustr ''grundlagen'',
          ustr ''theoretische grundlagen'',
          ustr ''theoretischer hintergrund'',
          ustr ''stand der forschung'',
          ustr ''forschungsstand'',
          ustr ''background'',
          ustr ''theoretical background'']),
      (ustr ''methode'',
         [ustr ''methode'', ustr ''methodik'', ustr ''methods'', ustr ''methodology'']),
      (ustr ''ergebnisse'', [ustr ''ergebnisse'', ustr ''results'']),
      (ustr ''diskussion'', [ustr ''diskussion'', ustr ''discussion'']),
      (ustr ''fazit'',
         [ustr ''fazit'',
          ustr ''schluss'',
          ustr ''schlussfolgerung'',
          ustr ''schlussfolgerungen'',
          ustr ''zusammenfassung'',
          ustr ''conclusion'',
          ustr ''conclusions'',
          ustr ''summary'',
          ustr ''ausblick'']),
      (ustr ''literatur'',
         [ustr ''literaturverzeichnis'',
          ustr ''references'',
          ustr ''bibliography'',
          ustr ''quellenverzeichnis'',
          ustr ''quellen''])]"

definition STRICT_ONLY_KEYS :: "ustring set" where
  "STRICT_ONLY_KEYS =
     {ustr ''literatur'', ustr ''ergebnisse'', ustr ''diskussion'', ustr ''abstract'',
      ustr ''abkuerzungen''}"

definition PREFIX_OK_KEYS :: "ustring set" where
  "PREFIX_OK_KEYS = {ustr ''einleitung'', ustr ''theorie'', ustr ''methode'', ustr ''fazit''}"

text \<open>
  A runtime iterates each of the two sets in some order without repetition.
\<close>

definition iterates_sets :: "runtime \<Rightarrow> bool" where
  "iterates_sets U =
     (set (strict_iter U) = STRICT_ONLY_KEYS \<and> distinct (strict_iter U) \<and>
      set (prefix_iter U) = PREFIX_OK_KEYS \<and> distinct (prefix_iter U))"

definition keywords_of :: "ustring \<Rightarrow> ustring list" where
  \<comment> \<open>\<open>SECTION_KEYWORDS.get(key, [])\<close>\<close>
  "keywords_of k = (case map_of SECTION_KEYWORDS k of None \<Rightarrow> [] | Some kws \<Rightarrow> kws)"

definition literaturrecherche_re :: regex where
  \<comment> \<open>\<open>\bliteraturrecherche\b\<close>\<close>
  "literaturrecherche_re = seqs [WordB, lits (ustr ''literaturrecherche''), WordB]"

definition theory_re :: regex where
  \<comment> \<open>\<open>\b(theorie|grundlagen|theoretisch|forschungsstand|stand der forschung|background)\b\<close>\<close>
  "theory_re =
     seqs [WordB,
           alts [lits (ustr ''theorie''), lits (ustr ''grundlagen''), lits (ustr ''theoretisch''),
                 lits (ustr ''forschungsstand''), lits (ustr ''stand der forschung''),
                 lits (ustr ''background'')],
           WordB]"

definition truthy :: "ustring option \<Rightarrow> bool" where
  \<comment> \<open>the truth value of an \<open>Optional[str]\<close>\<close>
  "truthy x = (case x of None \<Rightarrow> False | Some s \<Rightarrow> s \<noteq> [])"

definition is_top_level :: "runtime \<Rightarrow> int option \<Rightarrow> ustring option \<Rightarrow> bool" where
  "is_top_level U lvl num =
     (lvl = Some 1 \<or> (case num of None \<Rightarrow> False | Some n \<Rightarrow> n \<noteq> [] \<and> str_isdigit U n))"

definition exact_kw :: "runtime \<Rightarrow> ustring \<Rightarrow> ustring list \<Rightarrow> bool" where
  "exact_kw U t kws = list_ex (\<lambda>kw. t = normalize_title U kw) kws"

definition prefix_kw :: "runtime \<Rightarrow> ustring \<Rightarrow> ustring list \<Rightarrow> bool" where
  "prefix_kw U t kws =
     list_ex (\<lambda>kw. let kw_n = normalize_title U kw
                    in kw_n \<noteq> [] \<and> startswith t (kw_n @ [32])) kws"

definition exact_strict :: "runtime \<Rightarrow> ustring \<Rightarrow> ustring option" where
  \<comment> \<open>step 1: the strict-only keys, exact match\<close>
  "exact_strict U t = find (\<lambda>k. exact_kw U t (keywords_of k)) (strict_iter U)"

definition exact_rest :: "runtime \<Rightarrow> ustring \<Rightarrow> ustring option" where
  \<comment> \<open>step 2: the other keys in the order of the dictionary, exact match\<close>
  "exact_rest U t =
     map_option fst
       (find (\<lambda>(k, kws). k \<notin> STRICT_ONLY_KEYS \<and> exact_kw U t kws) SECTION_KEYWORDS)"

definition prefix_key :: "runtime \<Rightarrow> ustring \<Rightarrow> ustring option" where
  \<comment> \<open>step 3: the prefix keys, title starts with keyword and a space\<close>
  "prefix_key U t = find (\<lambda>k. prefix_kw U t (keywords_of k)) (prefix_iter U)"

definition find_section_key ::
  "runtime \<Rightarrow> ustring \<Rightarrow> int option \<Rightarrow> ustring option \<Rightarrow> ustring option" where
  "find_section_key U title lvl num =
     (let t = normalize_title U title
      in if t = [] then None
         else if re_search U literaturrecherche_re t \<noteq> None then None
         else (case exact_strict U t of
                 Some k \<Rightarrow> Some k
               | None \<Rightarrow>
                  (case exact_rest U t of
                     Some k \<Rightarrow> Some k
                   | None \<Rightarrow>
                      (case (if is_top_level U lvl num then prefix_key U t else None) of
                         Some k \<Rightarrow> Some k
                       | None \<Rightarrow>
                           if is_top_level U lvl num \<and> re_search U theory_re t \<noteq> None
                           then Some (ustr ''theorie'')
                           else None))))"

section \<open>The document model\<close>

text \<open>
  The classes of \<open>models/document_model.py\<close> and \<open>models/findings.py\<close>, with the fields
  that the extractor and the rules read and write. Field names carry a prefix for the
  class. A \<open>dict\<close> keeps its keys in insertion order and is a list of pairs with distinct
  keys.
\<close>

record Heading =
  h_text :: ustring
  h_level :: int
  h_number :: "ustring option"
  h_para_index :: int

record Section =
  s_key :: ustring
  s_title :: ustring
  s_start_para :: int
  s_end_para :: int
  s_text :: ustring
  s_word_count :: nat

record CitationSignals =
  numeric_count :: nat
  author_year_count :: nat
  etal_count :: nat

record DocumentModel =
  d_filename :: ustring
  d_paragraphs :: "ustring list"
  d_headings :: "Heading list"
  d_sections :: "(ustring \<times> Section) list"
  d_word_count_total :: nat
  d_tables_count :: int
  d_figure_refs :: "ustring list"
  d_table_refs :: "ustring list"
  d_citations :: CitationSignals

record AIAnnotations =
  research_question :: "ustring option"

record Finding =
  rule_id :: ustring
  category :: ustring
  severity :: ustring
  message :: ustring
  evidence :: "ustring option"

section \<open>The body tree\<close>

text \<open>
  An \<open>xml.etree.ElementTree.Element\<close>: the tag in the form \<open>{namespace}local\<close>, the
  attributes, the text before the first child, and the children.
\<close>

datatype element =
  Element (tag: ustring) (attrib: "(ustring \<times> ustring) list") (elem_text: "ustring option")
          (children: "element list")

definition w_ns :: ustring where
  "w_ns = ustr ''{http://schemas.openxmlformats.org/wordprocessingml/2006/main}''"

definition wname :: "string \<Rightarrow> ustring" where
  \<comment> \<open>the qualified name that \<open>w:name\<close> stands for\<close>
  "wname name = w_ns @ ustr name"

definition localname :: "element \<Rightarrow> ustring" where
  \<comment> \<open>\<open>child.tag.split("}")[-1]\<close>\<close>
  "localname e = last (split_char 125 (tag e))"

fun descendants :: "element \<Rightarrow> element list" where
  "descendants (Element t a x cs) = concat (map (\<lambda>c. c # descendants c) cs)"

definition find_child :: "ustring \<Rightarrow> element \<Rightarrow> element option" where
  \<comment> \<open>\<open>e.find("./w:name", _W_NS)\<close>\<close>
  "find_child name e = find (\<lambda>c. tag c = name) (children e)"

definition find_descendant :: "ustring \<Rightarrow> element \<Rightarrow> element option" where
  \<comment> \<open>\<open>e.find(".//w:name", _W_NS)\<close>\<close>
  "find_descendant name e = find (\<lambda>c. tag c = name) (descendants e)"

definition p_text :: "runtime \<Rightarrow> element \<Rightarrow> ustring" where
  "p_text U p =
     (let parts = concat (map (\<lambda>t. case elem_text t of None \<Rightarrow> [] | Some x \<Rightarrow> [x])
                              (filter (\<lambda>c. tag c = wname ''t'') (descendants p)));
          txt = concat parts
      in strip U (replace_char 160 32 (nfkc U txt)))"

definition p_style :: "runtime \<Rightarrow> element \<Rightarrow> ustring" where
  "p_style U p =
     (case find_child (wname ''pPr'') p of
        None \<Rightarrow> []
      | Some ppr \<Rightarrow>
          (case find_child (wname ''pStyle'') ppr of
             None \<Rightarrow> []
           | Some ps \<Rightarrow>
               (let val = (case map_of (attrib ps) (wname ''val'') of None \<Rightarrow> [] | Some v \<Rightarrow> v)
                in str_lower U (strip U val))))"

definition p_ilvl :: "runtime \<Rightarrow> element \<Rightarrow> int option" where
  "p_ilvl U p =
     (case find_child (wname ''pPr'') p of
        None \<Rightarrow> None
      | Some ppr \<Rightarrow>
          (case find_child (wname ''numPr'') ppr of
             None \<Rightarrow> None
           | Some numpr \<Rightarrow>
               (case find_child (wname ''ilvl'') numpr of
                  None \<Rightarrow> None
                | Some ilvl \<Rightarrow>
                    py_int U (case map_of (attrib ilvl) (wname ''val'') of
                                None \<Rightarrow> [] | Some v \<Rightarrow> v))))"

definition heading_word :: regex where
  \<comment> \<open>\<open>(heading|\<uuml>berschrift|berschrift)\<close>\<close>
  "heading_word =
     Grp (alts [lits (ustr ''heading''), lits (252 # ustr ''berschrift''),
                lits (ustr ''berschrift'')])"

definition style_level_re :: regex where
  \<comment> \<open>\<open>(heading|\<uuml>berschrift|berschrift)\s*([1-9])\<close>\<close>
  "style_level_re = seqs [heading_word, Star sp, Grp (Cls [CRange 49 57])]"

definition style_level_re2 :: regex where
  \<comment> \<open>\<open>(heading|\<uuml>berschrift|berschrift)([1-9])\<close>\<close>
  "style_level_re2 = seqs [heading_word, Grp (Cls [CRange 49 57])]"

definition group :: "cursor \<Rightarrow> nat \<Rightarrow> ustring" where
  \<comment> \<open>\<open>m.group(n)\<close> for a group that took part in the match\<close>
  "group m n = groups m ! (n - 1)"

definition heading_level_from_style :: "runtime \<Rightarrow> ustring \<Rightarrow> int option" where
  "heading_level_from_style U style_id =
     (let s = str_lower U (strip U style_id)
      in if s = [] then None
         else (case re_search U style_level_re s of
                 Some m \<Rightarrow> py_int U (group m 2)
               | None \<Rightarrow>
                  (case re_search U style_level_re2 s of
                     Some m2 \<Rightarrow> py_int U (group m2 2)
                   | None \<Rightarrow>
                       if contains s (ustr ''heading'') \<or> contains s (252 # ustr ''berschrift'')
                          \<or> contains s (ustr ''berschrift'')
                       then Some 1 else None)))"

text \<open>
  The nested generator \<open>walk\<close> of \<open>_walk_body_paragraphs\<close>; the list is the sequence of
  the pairs it yields.
\<close>

fun walk :: "element \<Rightarrow> bool \<Rightarrow> (element \<times> bool) list" where
  "walk (Element t a x cs) in_table =
     concat (map (\<lambda>child.
                    if localname child = ustr ''tbl'' then walk child True
                    else if localname child = ustr ''p'' then [(child, in_table)]
                    else walk child in_table) cs)"

definition walk_body_paragraphs :: "element \<Rightarrow> (element \<times> bool) list" where
  "walk_body_paragraphs body = walk body False"

section \<open>Paragraphs and headings\<close>

text \<open>
  The counters behind the auto-numbers: a list of ten, of which the entries 1 to 9 are
  used. \<open>auto_number\<close> is the block under \<open>if number is None and is_heading_style and
  ilvl is not None\<close>; it returns the counters and the number.
\<close>

definition auto_number :: "nat list \<Rightarrow> int \<Rightarrow> nat list \<times> ustring" where
  "auto_number auto_counts ilvl =
     (let lvl = nat (max 1 (min 9 (ilvl + 1)));
          c1 = auto_counts[lvl := auto_counts ! lvl + 1];
          c2 = fold (\<lambda>k c. c[k := 0]) [lvl + 1 ..< 10] c1;
          c3 = (if lvl > 1 \<and> c2 ! 1 = 0 then c2[1 := 1] else c2)
      in (c3, join [46] (map (\<lambda>k. str_nat (c3 ! k)) [1 ..< lvl + 1])))"

definition number_level :: "ustring option \<Rightarrow> int option" where
  \<comment> \<open>\<open>number.count(".") + 1 if number else None\<close>\<close>
  "number_level num = (if truthy num then Some (int (count_char 46 (the num)) + 1) else None)"

type_synonym extraction = "ustring list \<times> Heading list \<times> nat list"

definition classify :: "runtime \<Rightarrow> nat \<Rightarrow> element \<times> bool \<Rightarrow> extraction \<Rightarrow> extraction" where
  \<comment> \<open>one round of the loop over the walk, for the paragraph with index \<open>idx\<close>\<close>
  "classify U idx pb st =
     (case pb of (p, in_table) \<Rightarrow>
      case st of (paragraphs, headings, auto_counts) \<Rightarrow>
       (let text = p_text U p
        in if text = [] then (paragraphs @ [[]], headings, auto_counts)
           else if in_table then (paragraphs @ [text], headings, auto_counts)
           else
            (let level_from_style = heading_level_from_style U (p_style U p);
                 is_heading_style = (level_from_style \<noteq> None);
                 ilvl = p_ilvl U p;
                 (number0, title) =
                    (case re_match U NUMBERING_RE text of
                       Some m \<Rightarrow> (Some (group m 1), strip U (group m 2))
                     | None \<Rightarrow> (None, text));
                 (counts, num) =
                    (case ilvl of
                       Some i \<Rightarrow>
                         if number0 = None \<and> is_heading_style
                         then (case auto_number auto_counts i of (c, n) \<Rightarrow> (c, Some n))
                         else (auto_counts, number0)
                     | None \<Rightarrow> (auto_counts, number0));
                 looks_like_known_section =
                    (find_section_key U title
                       (if level_from_style \<noteq> None then level_from_style else number_level num)
                       num \<noteq> None)
             in if is_heading_style \<or> (truthy num \<and> length text \<le> 120)
                   \<or> (looks_like_known_section \<and> length title \<le> 60)
                then
                  (let lvl = (if truthy num then int (count_char 46 (the num)) + 1
                              else (case level_from_style of Some l \<Rightarrow> l | None \<Rightarrow> 1))
                   in (paragraphs @ [text],
                       headings @ [\<lparr> h_text = title, h_level = lvl, h_number = num,
                                      h_para_index = int idx \<rparr>],
                       counts))
                else (paragraphs @ [text], headings, counts))))"

fun classify_loop :: "runtime \<Rightarrow> nat \<Rightarrow> (element \<times> bool) list \<Rightarrow> extraction \<Rightarrow> extraction" where
  "classify_loop U idx [] st = st"
| "classify_loop U idx (pb # rest) st = classify_loop U (Suc idx) rest (classify U idx pb st)"

definition filter_toc :: "runtime \<Rightarrow> ustring list \<Rightarrow> Heading list \<Rightarrow> Heading list" where
  \<comment> \<open>the headings inside the table of contents are dropped\<close>
  "filter_toc U paragraphs headings =
     (case find_toc_range U paragraphs of
        None \<Rightarrow> headings
      | Some (toc_start, toc_end) \<Rightarrow>
          filter (\<lambda>h. \<not> (int toc_start \<le> h_para_index h \<and> h_para_index h < int toc_end
                          \<and> looks_like_toc_line U (paragraphs ! nat (h_para_index h))))
                 headings)"

definition extract_paragraphs_and_headings_from_xml ::
  "runtime \<Rightarrow> element \<Rightarrow> ustring list \<times> Heading list" where
  "extract_paragraphs_and_headings_from_xml U root =
     (case find_descendant (wname ''body'') root of
        None \<Rightarrow> ([], [])
      | Some body \<Rightarrow>
          (case classify_loop U 0 (walk_body_paragraphs body) ([], [], replicate 10 0) of
             (paragraphs, headings, counts) \<Rightarrow> (paragraphs, filter_toc U paragraphs headings)))"

section \<open>Sections and signals\<close>

definition word_count :: "runtime \<Rightarrow> ustring \<Rightarrow> nat" where
  \<comment> \<open>\<open>len(re.findall(r"\w+", text))\<close>\<close>
  "word_count U text = length (re_findall U (rplus (Cls [CWord])) text)"

definition section_end :: "ustring list \<Rightarrow> (Heading \<times> ustring option) list \<Rightarrow> int" where
  \<comment> \<open>the index of the next heading that has a key, or else the number of paragraphs\<close>
  "section_end paragraphs later =
     (case find (\<lambda>(h, k). truthy k) later of
        None \<Rightarrow> int (length paragraphs)
      | Some (h, k) \<Rightarrow> h_para_index h)"

definition make_section ::
  "runtime \<Rightarrow> ustring list \<Rightarrow> Heading \<Rightarrow> ustring \<Rightarrow> (Heading \<times> ustring option) list \<Rightarrow> Section"
  where
  "make_section U paragraphs h k later =
     (let start = h_para_index h + 1;
          end = section_end paragraphs later;
          slice_paras = filter (\<lambda>p. p \<noteq> [] \<and> strip U p \<noteq> []) (py_slice paragraphs start end);
          section_text = strip U (join [10] slice_paras)
      in \<lparr> s_key = k, s_title = h_text h, s_start_para = start,
           s_end_para = max start (end - 1), s_text = section_text,
           s_word_count = word_count U section_text \<rparr>)"

fun build_loop ::
  "runtime \<Rightarrow> ustring list \<Rightarrow> (ustring \<times> Section) list \<Rightarrow> (Heading \<times> ustring option) list
   \<Rightarrow> (ustring \<times> Section) list" where
  "build_loop U paragraphs sections [] = sections"
| "build_loop U paragraphs sections ((h, k) # later) =
     (case k of
        None \<Rightarrow> build_loop U paragraphs sections later
      | Some key \<Rightarrow>
          if key = [] then build_loop U paragraphs sections later
          else if key \<in> fst ` set sections then build_loop U paragraphs sections later
          else build_loop U paragraphs
                 (sections @ [(key, make_section U paragraphs h key later)]) later)"

definition section_key_of :: "runtime \<Rightarrow> Heading \<Rightarrow> ustring option" where
  "section_key_of U h = find_section_key U (h_text h) (Some (h_level h)) (h_number h)"

definition build_sections ::
  "runtime \<Rightarrow> ustring list \<Rightarrow> Heading list \<Rightarrow> (ustring \<times> Section) list" where
  "build_sections U paragraphs headings =
     (let hs = sort_key h_para_index headings;
          sec_keys = map (section_key_of U) hs
      in build_loop U paragraphs [] (zip hs sec_keys))"

text \<open>
  Under \<open>re.IGNORECASE\<close> a letter of the pattern matches the characters whose lower case
  it is; for \<open>i\<close> these are \<open>i\<close>, \<open>I\<close>, U+0130 and U+0131, for the other letters used
  here the letter and its capital.
\<close>

definition ci :: "char \<Rightarrow> regex" where
  "ci c =
     (if c = CHR ''i'' then Cls [CChar 105, CChar 73, CChar 304, CChar 305]
      else Cls [CChar (of_char c), CChar (of_char c - 32)])"

definition figure_ref_re :: regex where
  \<comment> \<open>\<open>\bAbbildung\s+\d+\b\<close>, ignoring case\<close>
  "figure_ref_re = seqs [WordB, seqs (map ci ''abbildung''), rplus sp, rplus dg, WordB]"

definition table_ref_re :: regex where
  \<comment> \<open>\<open>\bTabelle\s+\d+\b\<close>, ignoring case\<close>
  "table_ref_re = seqs [WordB, seqs (map ci ''tabelle''), rplus sp, rplus dg, WordB]"

definition full_text :: "ustring list \<Rightarrow> ustring" where
  \<comment> \<open>\<open>"\n".join([p for p in paragraphs if p])\<close>\<close>
  "full_text paragraphs = join [10] (filter (\<lambda>p. p \<noteq> []) paragraphs)"

definition extract_references :: "runtime \<Rightarrow> ustring list \<Rightarrow> ustring list \<times> ustring list" where
  "extract_references U paragraphs =
     (let text = full_text paragraphs;
          fig = map (\<lambda>m. str_title U (fst m)) (re_findall U figure_ref_re text);
          tab = map (\<lambda>m. str_title U (fst m)) (re_findall U table_ref_re text)
      in (sort (remdups fig), sort (remdups tab)))"

definition bracket_block_re :: regex where
  \<comment> \<open>\<open>\[([^\]]*?\d[^\]]*?)\]\<close>\<close>
  "bracket_block_re =
     seqs [Lit 91, Grp (seqs [LazyStar (NCls [CChar 93]), dg, LazyStar (NCls [CChar 93])]),
           Lit 93]"

definition author_year_re :: regex where
  \<comment> \<open>\<open>\([A-Z\<Auml>\<Ouml>\<Uuml>][A-Za-z\<Auml>\<Ouml>\<Uuml>\<auml>\<ouml>\<uuml>\<ss>\-]+,\s*\d{4}\)\<close>\<close>
  "author_year_re =
     seqs [Lit 40,
           Cls [CRange 65 90, CChar 196, CChar 214, CChar 220],
           rplus (Cls [CRange 65 90, CRange 97 122, CChar 196, CChar 214, CChar 220,
                       CChar 228, CChar 246, CChar 252, CChar 223, CChar 45]),
           Lit 44, Star sp, rrep 4 dg, Lit 41]"

definition etal_re :: regex where
  \<comment> \<open>\<open>\bet\s+al\.\<close>, ignoring case\<close>
  "etal_re = seqs [WordB, ci CHR ''e'', ci CHR ''t'', rplus sp, ci CHR ''a'', ci CHR ''l'', Lit 46]"

definition extract_citation_signals :: "runtime \<Rightarrow> ustring list \<Rightarrow> CitationSignals" where
  "extract_citation_signals U paragraphs =
     (let text = full_text paragraphs;
          blocks = map (\<lambda>m. hd (snd m)) (re_findall U bracket_block_re text);
          numeric = filter (\<lambda>b. re_findall U (rplus dg)
                                    (replace_char 8212 45 (replace_char 8211 45 b)) \<noteq> [])
                           blocks
      in \<lparr> numeric_count = length numeric,
           author_year_count = length (re_findall U author_year_re text),
           etal_count = length (re_findall U etal_re text) \<rparr>)"

text \<open>
  \<open>extract_docx\<close> reads the file twice: once with \<open>python-docx\<close>, of which only the
  number of tables is kept, and once as XML. The file is given here by its name, that
  number and the root of \<open>word/document.xml\<close>.
\<close>

definition extract_docx :: "runtime \<Rightarrow> ustring \<Rightarrow> int \<Rightarrow> element \<Rightarrow> DocumentModel" where
  "extract_docx U name tables root =
     (case extract_paragraphs_and_headings_from_xml U root of
        (paragraphs, headings) \<Rightarrow>
          (case extract_references U paragraphs of
             (figures, tabs) \<Rightarrow>
               \<lparr> d_filename = name,
                 d_paragraphs = paragraphs,
                 d_headings = headings,
                 d_sections = build_sections U paragraphs headings,
                 d_word_count_total = word_count U (full_text paragraphs),
                 d_tables_count = tables,
                 d_figure_refs = figures,
                 d_table_refs = tabs,
                 d_citations = extract_citation_signals U paragraphs \<rparr>))"

section \<open>Rules\<close>

subsection \<open>Required chapters (\<open>structure_rules.py\<close>)\<close>

definition REQUIRED :: "ustring list" where
  "REQUIRED =
     [ustr ''einleitung'', ustr ''theorie'', ustr ''methode'', ustr ''ergebnisse'',
      ustr ''diskussion'', ustr ''fazit'', ustr ''literatur'']"

definition section_keys :: "DocumentModel \<Rightarrow> ustring list" where
  \<comment> \<open>\<open>doc.sections.keys()\<close>\<close>
  "section_keys doc = map fst (d_sections doc)"

definition missing_chapters :: "DocumentModel \<Rightarrow> ustring list" where
  \<comment> \<open>\<open>[k for k in self.REQUIRED if k not in present]\<close>\<close>
  "missing_chapters doc = filter (\<lambda>k. k \<notin> set (section_keys doc)) REQUIRED"

definition or_else :: "ustring \<Rightarrow> ustring \<Rightarrow> ustring" where
  \<comment> \<open>\<open>a or b\<close> on strings\<close>
  "or_else a b = (if a = [] then b else a)"

definition RequiredChaptersRule_run :: "DocumentModel \<Rightarrow> AIAnnotations option \<Rightarrow> Finding list" where
  "RequiredChaptersRule_run doc ai =
     (let present = sort (remdups (section_keys doc));
          missing = missing_chapters doc
      in if missing \<noteq> [] then
           [\<lparr> rule_id = ustr ''STRUCT-007'',
              category = ustr ''Struktur'',
              severity = ustr ''error'',
              message = ustr ''Fehlende Pflichtkapitel: '' @ join (ustr '', '') missing,
              evidence = Some (ustr ''Gefunden: ''
                               @ or_else (join (ustr '', '') present) (ustr ''keine'')) \<rparr>]
         else
           [\<lparr> rule_id = ustr ''STRUCT-007'',
              category = ustr ''Struktur'',
              severity = ustr ''info'',
              message = ustr ''Alle Pflichtkapitel wurden gefunden.'',
              evidence = Some (ustr ''Kapitel: '' @ join (ustr '', '') present) \<rparr>])"

subsection \<open>Heading hierarchy (\<open>heading_rules.py\<close>)\<close>

fun parse_pieces :: "runtime \<Rightarrow> ustring list \<Rightarrow> py_error + int list" where
  "parse_pieces U [] = Inr []"
| "parse_pieces U (x # xs) =
     (if str_isdigit U (strip U x) then
        (case py_int U x of
           None \<Rightarrow> Inl ValueError
         | Some n \<Rightarrow> (case parse_pieces U xs of Inl e \<Rightarrow> Inl e | Inr ns \<Rightarrow> Inr (n # ns)))
      else parse_pieces U xs)"

definition parse_number :: "runtime \<Rightarrow> ustring \<Rightarrow> py_error + int list" where
  \<comment> \<open>\<open>[int(x) for x in num.split(".") if x.strip().isdigit()]\<close>\<close>
  "parse_number U num = parse_pieces U (split_char 46 num)"

definition number_and_text :: "Heading \<Rightarrow> ustring" where
  \<comment> \<open>\<open>{h.number} {h.text}\<close>\<close>
  "number_and_text h = the (h_number h) @ [32] @ h_text h"

definition level_finding :: "Heading \<Rightarrow> int \<Rightarrow> Finding" where
  "level_finding h expected_level =
     \<lparr> rule_id = ustr ''STRUCT-009'',
       category = ustr ''Struktur'',
       severity = ustr ''warn'',
       message = 220 # ustr ''berschriftenlevel passt evtl. nicht zur Nummerierung: ''
                 @ [39] @ number_and_text h @ [39],
       evidence = Some (ustr ''Erwarteter Level: '' @ str_int expected_level
                        @ ustr '', erkannt: '' @ str_int (h_level h)) \<rparr>"

definition jump_finding :: "Heading \<Rightarrow> int list \<Rightarrow> Finding" where
  "jump_finding h prev_parts =
     \<lparr> rule_id = ustr ''STRUCT-009'',
       category = ustr ''Struktur'',
       severity = ustr ''warn'',
       message = ustr ''M'' @ [246] @ ustr ''glicher Nummerierungssprung: vorher ''
                 @ join [46] (map str_int prev_parts) @ ustr '', jetzt '' @ the (h_number h),
       evidence = Some (220 # ustr ''berschrift: '' @ number_and_text h) \<rparr>"

fun hierarchy_loop ::
  "runtime \<Rightarrow> Heading list \<Rightarrow> Finding list \<Rightarrow> int list option \<Rightarrow> py_error + Finding list" where
  "hierarchy_loop U [] findings prev_parts = Inr findings"
| "hierarchy_loop U (h # hs) findings prev_parts =
     (case parse_number U (the (h_number h)) of
        Inl e \<Rightarrow> Inl e
      | Inr parts \<Rightarrow>
          (let expected_level = int (length parts);
               f1 = (if h_level h \<noteq> expected_level
                     then findings @ [level_finding h expected_level] else findings)
           in case prev_parts of
                None \<Rightarrow> hierarchy_loop U hs f1 (Some parts)
              | Some pp \<Rightarrow>
                  if length parts = length pp \<and> butlast parts = butlast pp
                  then (if parts = [] then Inl IndexError
                        else if last parts > last pp + 1
                        then hierarchy_loop U hs (f1 @ [jump_finding h pp]) (Some parts)
                        else hierarchy_loop U hs f1 (Some parts))
                  else hierarchy_loop U hs f1 (Some parts)))"

definition HeadingHierarchyRule_run ::
  "runtime \<Rightarrow> DocumentModel \<Rightarrow> AIAnnotations option \<Rightarrow> py_error + Finding list" where
  "HeadingHierarchyRule_run U doc ai =
     (let numbered = filter (\<lambda>h. truthy (h_number h)) (d_headings doc)
      in if length numbered = 0 then
           Inr [\<lparr> rule_id = ustr ''STRUCT-009'',
                  category = ustr ''Struktur'',
                  severity = ustr ''info'',
                  message = ustr ''Keine nummerierten '' @ [220]
                            @ ustr ''berschriften gefunden (Check 9 '' @ [252]
                            @ ustr ''bersprungen).'',
                  evidence = None \<rparr>]
         else
           (case hierarchy_loop U numbered [] None of
              Inl e \<Rightarrow> Inl e
            | Inr findings \<Rightarrow>
                if findings = [] then
                  Inr [\<lparr> rule_id = ustr ''STRUCT-009'',
                         category = ustr ''Struktur'',
                         severity = ustr ''info'',
                         message = 220 # ustr ''berschriftenhierarchie wirkt konsistent (heuristisch).'',
                         evidence = Some (ustr ''Nummerierte '' @ [220] @ ustr ''berschriften: ''
                                          @ str_nat (length numbered)) \<rparr>]
                else Inr findings))"

subsection \<open>The registry (\<open>registry.py\<close>)\<close>

text \<open>The rule classes that \<open>registry.py\<close> imports, and the \<open>id\<close> of each.\<close>

datatype rule =
    RequiredChaptersRule
  | ChapterOrderPlausibleRule
  | ChapterLengthBalancedRule
  | HeadingHierarchyRule
  | HeadingDepthRule
  | MethodChapterExistsRule
  | MethodDetailSufficientRule
  | ResultsDiscussionSeparationRule
  | FiguresTablesReferencedRule
  | ResearchQuestionExistsRule
  | ResearchQuestionInIntroRule
  | ResearchKeyTermsConsistencyRule
  | ResearchQuestionReferencedInResultsRule
  | ResearchQuestionReferencedInDiscussionRule
  | LiteratureExistsRule
  | AllCitationsInReferenceListRule
  | NoUncitedReferencesRule
  | CitationStyleConsistentRule
  | CitationDensityRule
  | ReferenceYearsRule
  | AbbreviationsListExistsRule
  | DefinitionsPresentRule
  | ConclusionChapterExistsRule
  | AbstractExistsRule
  | IntroHasStructureOverviewRule
  | CaptionsPresentRule
  | TableOfContentsExistsRule
  | ListOfFiguresExistsRule
  | ListOfTablesExistsRule
  | HeadingsMustBeNumberedRule
  | HeadingNumberingNoGapsRule

fun id_of :: "rule \<Rightarrow> string" where
  "id_of RequiredChaptersRule = ''STRUCT-007''"
| "id_of ChapterOrderPlausibleRule = ''STRUCT-008''"
| "id_of ChapterLengthBalancedRule = ''STRUCT-011''"
| "id_of HeadingHierarchyRule = ''STRUCT-009''"
| "id_of HeadingDepthRule = ''STRUCT-010''"
| "id_of MethodChapterExistsRule = ''METH-019''"
| "id_of MethodDetailSufficientRule = ''METH-020''"
| "id_of ResultsDiscussionSeparationRule = ''RES-025''"
| "id_of FiguresTablesReferencedRule = ''RES-026''"
| "id_of ResearchQuestionExistsRule = ''RQ-001''"
| "id_of ResearchQuestionInIntroRule = ''RQ-002''"
| "id_of ResearchKeyTermsConsistencyRule = ''RQ-003''"
| "id_of ResearchQuestionReferencedInResultsRule = ''RQ-004''"
| "id_of ResearchQuestionReferencedInDiscussionRule = ''RQ-005''"
| "id_of LiteratureExistsRule = ''LIT-032''"
| "id_of AllCitationsInReferenceListRule = ''LIT-033''"
| "id_of NoUncitedReferencesRule = ''LIT-034''"
| "id_of CitationStyleConsistentRule = ''LIT-035''"
| "id_of CitationDensityRule = ''LIT-036''"
| "id_of ReferenceYearsRule = ''LIT-037''"
| "id_of AbbreviationsListExistsRule = ''TERM-015''"
| "id_of DefinitionsPresentRule = ''TERM-016''"
| "id_of ConclusionChapterExistsRule = ''STRUCT-012''"
| "id_of AbstractExistsRule = ''STRUCT-013''"
| "id_of IntroHasStructureOverviewRule = ''STRUCT-014''"
| "id_of CaptionsPresentRule = ''FORM-038''"
| "id_of TableOfContentsExistsRule = ''STRUCT-015''"
| "id_of ListOfFiguresExistsRule = ''FORM-039''"
| "id_of ListOfTablesExistsRule = ''FORM-040''"
| "id_of HeadingsMustBeNumberedRule = ''FORM-041a''"
| "id_of HeadingNumberingNoGapsRule = ''FORM-041b''"

definition get_all_rules :: "rule list" where
  "get_all_rules =
     [RequiredChaptersRule,
      TableOfContentsExistsRule,
      HeadingHierarchyRule,
      HeadingDepthRule,
      HeadingsMustBeNumberedRule,
      HeadingNumberingNoGapsRule,
      ResearchQuestionExistsRule,
      ResearchQuestionInIntroRule,
      ResearchKeyTermsConsistencyRule,
      ResearchQuestionReferencedInResultsRule,
      ResearchQuestionReferencedInDiscussionRule,
      ChapterOrderPlausibleRule,
      ChapterLengthBalancedRule,
      MethodChapterExistsRule,
      MethodDetailSufficientRule,
      ResultsDiscussionSeparationRule,
      LiteratureExistsRule,
      AllCitationsInReferenceListRule,
      NoUncitedReferencesRule,
      CitationStyleConsistentRule,
      ListOfFiguresExistsRule,
      ListOfTablesExistsRule,
      FiguresTablesReferencedRule]"

definition imported_not_registered :: "rule list" where
  "imported_not_registered =
     [CitationDensityRule, ReferenceYearsRule, AbbreviationsListExistsRule,
      DefinitionsPresentRule, ConclusionChapterExistsRule, AbstractExistsRule,
      IntroHasStructureOverviewRule, CaptionsPresentRule]"

section \<open>A concrete runtime\<close>

text \<open>
  For running the model on concrete documents: CPython's tables on the code points below
  256 (Basic Latin and Latin-1 Supplement) and on the eight code points above them that
  NFKC and \<open>str.title\<close> make of these. No code point below 256 is a combining mark,
  so NFKC maps a text character by character: fourteen characters have a compatibility
  form, the others stay. \<open>int(_)\<close> drops the white space around the number (not the
  separators U+001C to U+001F, which \<open>str.strip\<close> does drop), reads an optional sign
  and decimal digits with single underscores between them, and refuses a number of more
  than 4300 digits, which is the interpreter's default limit for the conversion.
  \<open>str.title\<close> puts a capital at the start of every run of letters and small letters
  behind it. The two sets are iterated in the order of their literals.
\<close>

definition l1_isspace :: "uchar \<Rightarrow> bool" where
  "l1_isspace c = (c \<in> {9, 10, 11, 12, 13, 28, 29, 30, 31, 32, 133, 160})"

definition l1_isdecimal :: "uchar \<Rightarrow> bool" where
  "l1_isdecimal c = (48 \<le> c \<and> c \<le> 57)"

definition l1_isdigit :: "uchar \<Rightarrow> bool" where
  "l1_isdigit c = (l1_isdecimal c \<or> c \<in> {178, 179, 185})"

definition l1_isalpha :: "uchar \<Rightarrow> bool" where
  "l1_isalpha c =
     ((65 \<le> c \<and> c \<le> 90) \<or> (97 \<le> c \<and> c \<le> 122) \<or> c \<in> {170, 181, 186}
      \<or> (192 \<le> c \<and> c \<le> 214) \<or> (216 \<le> c \<and> c \<le> 246) \<or> (248 \<le> c \<and> c \<le> 255)
      \<or> c \<in> {376, 924, 956})"

definition l1_isalnum :: "uchar \<Rightarrow> bool" where
  "l1_isalnum c = (l1_isalpha c \<or> l1_isdigit c \<or> c \<in> {188, 189, 190})"

definition l1_lower_char :: "uchar \<Rightarrow> uchar" where
  "l1_lower_char c =
     (if (65 \<le> c \<and> c \<le> 90) \<or> (192 \<le> c \<and> c \<le> 214) \<or> (216 \<le> c \<and> c \<le> 222)
      then c + 32
      else if c = 376 then 255
      else if c = 924 then 956
      else c)"

definition l1_nfkc_char :: "uchar \<Rightarrow> ustring" where
  \<comment> \<open>the compatibility forms: space, spacing accents, superscripts, ordinal indicators,
      the micro sign, the fractions\<close>
  "l1_nfkc_char c =
     (if c < 160 then [c]
      else if c = 160 then [32]
      else if c = 168 then [32, 776]
      else if c = 170 then [97]
      else if c = 175 then [32, 772]
      else if c = 178 then [50]
      else if c = 179 then [51]
      else if c = 180 then [32, 769]
      else if c = 181 then [956]
      else if c = 184 then [32, 807]
      else if c = 185 then [49]
      else if c = 186 then [111]
      else if c = 188 then [49, 8260, 52]
      else if c = 189 then [49, 8260, 50]
      else if c = 190 then [51, 8260, 52]
      else [c])"

definition l1_nfkc :: "ustring \<Rightarrow> ustring" where
  "l1_nfkc s = concat (map l1_nfkc_char s)"

definition int_space :: "uchar \<Rightarrow> bool" where
  \<comment> \<open>the white space that \<open>int(_)\<close> drops\<close>
  "int_space c = (c \<in> {9, 10, 11, 12, 13, 32, 133, 160})"

definition int_max_str_digits :: nat where
  "int_max_str_digits = 4300"

fun digits_value :: "nat \<Rightarrow> ustring \<Rightarrow> nat option" where
  "digits_value acc [] = Some acc"
| "digits_value acc (c # s) =
     (if l1_isdecimal c then digits_value (10 * acc + (c - 48)) s
      else if c = 95 \<and> s \<noteq> [] \<and> l1_isdecimal (hd s) then digits_value acc s
      else None)"

definition unsigned_value :: "ustring \<Rightarrow> nat option" where
  "unsigned_value s =
     (case s of
        [] \<Rightarrow> None
      | c # _ \<Rightarrow>
          if \<not> l1_isdecimal c then None
          else if int_max_str_digits < length (filter l1_isdecimal s) then None
          else digits_value 0 s)"

definition l1_int :: "ustring \<Rightarrow> int option" where
  "l1_int s =
     (let t = rev (dropWhile int_space (rev (dropWhile int_space s)))
      in case t of
           [] \<Rightarrow> None
         | c # r \<Rightarrow>
             if c = 45 then map_option (\<lambda>n. - int n) (unsigned_value r)
             else if c = 43 then map_option int (unsigned_value r)
             else map_option int (unsigned_value t))"

definition l1_upper_char :: "uchar \<Rightarrow> ustring" where
  \<comment> \<open>the title-case form; that of the sharp s has two letters, those of the micro sign
      and of y with diaeresis lie above U+00FF\<close>
  "l1_upper_char c =
     (if c = 223 then [83, 115]
      else if c = 255 then [376]
      else if c = 181 \<or> c = 956 then [924]
      else if (97 \<le> c \<and> c \<le> 122) \<or> (224 \<le> c \<and> c \<le> 246) \<or> (248 \<le> c \<and> c \<le> 254)
      then [c - 32] else [c])"

fun title_from :: "bool \<Rightarrow> ustring \<Rightarrow> ustring" where
  "title_from prev_cased [] = []"
| "title_from prev_cased (c # s) =
     (if l1_isalpha c
      then (if prev_cased then [l1_lower_char c] else l1_upper_char c) @ title_from True s
      else c # title_from False s)"

definition l1_title :: "ustring \<Rightarrow> ustring" where
  "l1_title s = title_from False s"

definition latin1 :: runtime where
  "latin1 =
     \<lparr> nfkc = l1_nfkc,
       str_lower = map l1_lower_char,
       isspace = l1_isspace,
       isdecimal = l1_isdecimal,
       isdigit = l1_isdigit,
       isalnum = l1_isalnum,
       py_int = l1_int,
       str_title = l1_title,
       strict_iter = [ustr ''literatur'', ustr ''ergebnisse'', ustr ''diskussion'',
                      ustr ''abstract'', ustr ''abkuerzungen''],
       prefix_iter = [ustr ''einleitung'', ustr ''theorie'', ustr ''methode'', ustr ''fazit''] \<rparr>"

section \<open>Example documents\<close>

text \<open>
  Bodies for running the extractor: a paragraph with one run of text and no properties,
  and a paragraph with a style and a list level.
\<close>

definition run_of :: "string \<Rightarrow> element" where
  "run_of s =
     Element (wname ''r'') [] None [Element (wname ''t'') [] (Some (ustr s)) []]"

definition plain_paragraph :: "string \<Rightarrow> element" where
  "plain_paragraph s = Element (wname ''p'') [] None [run_of s]"

definition styled_paragraph :: "string \<Rightarrow> string \<Rightarrow> string \<Rightarrow> element" where
  "styled_paragraph style ilvl s =
     Element (wname ''p'') [] None
       [Element (wname ''pPr'') [] None
          [Element (wname ''pStyle'') [(wname ''val'', ustr style)] None [],
           Element (wname ''numPr'') [] None
             [Element (wname ''ilvl'') [(wname ''val'', ustr ilvl)] None []]],
        run_of s]"

definition document_of :: "element list \<Rightarrow> element" where
  "document_of ps = Element (wname ''document'') [] None [Element (wname ''body'') [] None ps]"

definition toc_example :: "string list" where
  "toc_example =
     [''Inhaltsverzeichnis'', ''1. Einleitung ....... 3'', ''2. Methode ....... 10'',
      ''Einleitung'', ''Text...'', ''Methode'', ''Text...'']"

definition six_chapters :: "string list" where
  "six_chapters =
     [''1 Einleitung'', ''2 Methode'', ''3 Ergebnisse'', ''4 Diskussion'', ''5 Fazit'',
      ''6 Literaturverzeichnis'']"

definition seven_chapters :: "string list" where
  "seven_chapters =
     [''1 Einleitung'', ''Theorie'', ''2 Methode'', ''3 Ergebnisse'', ''4 Diskussion'',
      ''5 Fazit'', ''6 Literaturverzeichnis'']"

definition thesis :: "string list \<Rightarrow> DocumentModel" where
  "thesis texts =
     extract_docx latin1 (ustr ''thesis.docx'') 0 (document_of (map plain_paragraph texts))"

definition two_reference_lists :: "string list" where
  "two_reference_lists = [''Literaturverzeichnis'', ''Quelle A'', ''Quellen'', ''Quelle B'']"

definition seven_outline_paragraphs :: "(element \<times> bool) list" where
  "seven_outline_paragraphs =
     map (\<lambda>(style, ilvl). (styled_paragraph style ilvl ''Kapitel'', False))
       [(''Heading1'', ''0''), (''Heading1'', ''0''), (''Heading2'', ''1''), (''Heading1'', ''0''),
        (''Heading2'', ''1''), (''Heading2'', ''1''), (''Heading1'', ''0'')]"

definition sparse_example :: "string list" where
  \<comment> \<open>a title and eight lines of text, each followed by an empty paragraph\<close>
  "sparse_example =
     [''Inhaltsverzeichnis'', ''Vorwort'', [], ''Vorwort'', [], ''Vorwort'', [], ''Vorwort'', [],
      ''Vorwort'', [], ''Vorwort'', [], ''Vorwort'', [], ''Vorwort'', []]"

definition short_example :: "string list" where
  \<comment> \<open>a title and five lines of text\<close>
  "short_example =
     [''Inhaltsverzeichnis'', ''Vorwort'', ''Vorwort'', ''Vorwort'', ''Vorwort'', ''Vorwort'']"

definition text_box_body :: element where
  \<comment> \<open>a paragraph that holds a text box with a paragraph of its own\<close>
  "text_box_body =
     Element (wname ''body'') [] None
       [Element (wname ''p'') [] None
          [Element (wname ''r'') [] None
             [Element (wname ''txbxContent'') [] None [plain_paragraph ''Box'']]]]"

definition table_body :: element where
  \<comment> \<open>a numbered line, a table with a numbered cell, a line of text\<close>
  "table_body =
     Element (wname ''body'') [] None
       [plain_paragraph ''1 Einleitung'',
        Element (wname ''tbl'') [] None
          [Element (wname ''tr'') [] None
             [Element (wname ''tc'') [] None [plain_paragraph ''2 Methode'']]],
        plain_paragraph ''Text...'']"

definition table_document :: element where
  "table_document = Element (wname ''document'') [] None [table_body]"

definition citation_example :: ustring where
  "citation_example =
     ustr ''Studies [1,3-5] and (M'' @ [252] @ ustr ''ller, 2020) show... et al. confirm.''"

definition outline_with_text :: "(element \<times> bool) list" where
  \<comment> \<open>the seven outline paragraphs with lines of text between them, one of them in a table\<close>
  "outline_with_text =
     [(styled_paragraph ''Heading1'' ''0'' ''Kapitel'', False),
      (plain_paragraph ''Text...'', False),
      (styled_paragraph ''Heading1'' ''0'' ''Kapitel'', False),
      (styled_paragraph ''Heading2'' ''1'' ''Kapitel'', False),
      (plain_paragraph ''Text...'', True),
      (styled_paragraph ''Heading1'' ''0'' ''Kapitel'', False),
      (styled_paragraph ''Heading2'' ''1'' ''Kapitel'', False),
      (styled_paragraph ''Heading2'' ''1'' ''Kapitel'', False),
      (plain_paragraph ''Text...'', False),
      (styled_paragraph ''Heading1'' ''0'' ''Kapitel'', False)]"

definition chapters_with_text :: "element list" where
  \<comment> \<open>a heading, a line of text, a heading\<close>
  "chapters_with_text =
     [styled_paragraph ''Heading1'' ''0'' ''Kapitel'', plain_paragraph ''Text...'',
      styled_paragraph ''Heading1'' ''0'' ''Kapitel'']"

definition long_number :: string where
  \<comment> \<open>a number of 4301 digits\<close>
  "long_number = replicate 4301 (CHR ''1'')"

definition long_number_document :: element where
  \<comment> \<open>a document of one paragraph: the long number, a space, "Einleitung"\<close>
  "long_number_document = document_of [plain_paragraph (long_number @ '' Einleitung'')]"

section \<open>Notions for stating the properties\<close>

subsection \<open>Nodes of the body in document order\<close>

text \<open>
  \<open>nodes_below\<close> lists every node below a root once, in document order, each with the
  local names of its ancestors below the root. A node is \<open>yielded\<close> when it is a
  paragraph outside every other paragraph, and it is \<open>flagged\<close> by a table among
  its ancestors. \<open>all_paragraphs\<close> is the walk as claim C8 words it: every paragraph
  node.
\<close>

fun nodes_below :: "ustring list \<Rightarrow> element \<Rightarrow> (element \<times> ustring list) list" where
  "nodes_below anc (Element t a x cs) =
     concat (map (\<lambda>c. (c, anc) # nodes_below (anc @ [localname c]) c) cs)"

definition yielded :: "element \<times> ustring list \<Rightarrow> bool" where
  "yielded na = (localname (fst na) = ustr ''p'' \<and> ustr ''p'' \<notin> set (snd na))"

definition flagged :: "element \<times> ustring list \<Rightarrow> element \<times> bool" where
  "flagged na = (fst na, ustr ''tbl'' \<in> set (snd na))"

definition all_paragraphs :: "element \<Rightarrow> (element \<times> bool) list" where
  "all_paragraphs body =
     map flagged (filter (\<lambda>na. localname (fst na) = ustr ''p'') (nodes_below [] body))"

subsection \<open>Windows of the table-of-contents scan\<close>

definition toc_title :: "runtime \<Rightarrow> ustring \<Rightarrow> bool" where
  "toc_title U p = (normalize_simple U p = ustr ''inhaltsverzeichnis'')"

definition window_ends :: "runtime \<Rightarrow> ustring list \<Rightarrow> nat \<Rightarrow> nat \<Rightarrow> bool" where
  \<comment> \<open>the window that starts at \<open>j\<close> has five or more lines that do not look like the TOC\<close>
  "window_ends U ps max_scan j = (5 \<le> non_toc U (toc_window U ps max_scan j))"

text \<open>
  Claim C7 as worded: a window is eight non-empty paragraphs, counted from its start
  up to the cap of the scan.
\<close>

definition eight_nonempty :: "runtime \<Rightarrow> ustring list \<Rightarrow> nat \<Rightarrow> nat \<Rightarrow> ustring list" where
  "eight_nonempty U ps max_scan j =
     take 8 (filter (\<lambda>x. normalize_simple U x \<noteq> []) (slice_nat ps j max_scan))"

definition end_by_eight_nonempty :: "runtime \<Rightarrow> ustring list \<Rightarrow> nat \<Rightarrow> nat" where
  "end_by_eight_nonempty U ps toc_start =
     (let max_scan = min (length ps) (toc_start + 500)
      in case find (\<lambda>j. 5 \<le> non_toc U (eight_nonempty U ps max_scan j))
                   [toc_start + 1 ..< max_scan] of
           Some j \<Rightarrow> j
         | None \<Rightarrow> min (length ps) (toc_start + 250))"

subsection \<open>Runtimes and keywords\<close>

definition keywords_normal :: "runtime \<Rightarrow> bool" where
  \<comment> \<open>normalising a keyword of the table gives the keyword\<close>
  "keywords_normal U = (\<forall>k. \<forall>kw \<in> set (keywords_of k). normalize_title U kw = kw)"

subsection \<open>Outline counters\<close>

definition depth_of :: "int \<Rightarrow> nat" where
  \<comment> \<open>\<open>max(1, min(9, ilvl + 1))\<close>\<close>
  "depth_of ilvl = nat (max 1 (min 9 (ilvl + 1)))"

text \<open>
  The counter mechanism in the words of claim C5, at a depth \<open>d\<close> and over counters for
  every depth: increment the counter at \<open>d\<close>, zero the deeper ones, set the counter at
  depth 1 to 1 when \<open>d > 1\<close> and it is still zero, and join the counters from 1 to \<open>d\<close>.
\<close>

definition number_at_depth :: "(nat \<Rightarrow> nat) \<Rightarrow> nat \<Rightarrow> (nat \<Rightarrow> nat) \<times> ustring" where
  "number_at_depth c d =
     (let c1 = c(d := c d + 1);
          c2 = (\<lambda>k. if d < k then 0 else c1 k);
          c3 = (if 1 < d \<and> c2 1 = 0 then c2(1 := 1) else c2)
      in (c3, join [46] (map (\<lambda>k. str_nat (c3 k)) [1 ..< d + 1])))"

fun auto_numbers :: "nat list \<Rightarrow> int list \<Rightarrow> ustring list" where
  "auto_numbers cs [] = []"
| "auto_numbers cs (i # is) = (case auto_number cs i of (c, n) \<Rightarrow> n # auto_numbers c is)"

definition auto_numbered :: "runtime \<Rightarrow> element \<times> bool \<Rightarrow> int \<Rightarrow> bool" where
  \<comment> \<open>a paragraph outside tables with text, a heading style, no number in its text, and
      the list level \<open>ilvl\<close>\<close>
  "auto_numbered U pb ilvl =
     (\<not> snd pb \<and> p_text U (fst pb) \<noteq> [] \<and>
      heading_level_from_style U (p_style U (fst pb)) \<noteq> None \<and>
      re_match U NUMBERING_RE (p_text U (fst pb)) = None \<and>
      p_ilvl U (fst pb) = Some ilvl)"

text \<open>
  The numbering of a whole document in the words of claim C5: one counter for every
  depth, all zero at the start of the document, is carried through the paragraphs in the
  order of the walk. An auto-numbered paragraph takes its number from the mechanism at
  the depth \<open>max(1, min(9, ilvl + 1))\<close> and hands the changed counters on; every other
  paragraph hands them on as they are. \<open>outline_numbers\<close> has one entry for each
  paragraph, the number or \<open>None\<close>. \<open>auto_levels\<close> lists the list levels of the
  auto-numbered paragraphs in document order, \<open>numbers_at\<close> the numbers of the
  headings recorded for a paragraph index, and \<open>auto_headings\<close> the headings recorded
  for auto-numbered paragraphs.
\<close>

fun outline_numbers :: "runtime \<Rightarrow> (nat \<Rightarrow> nat) \<Rightarrow> (element \<times> bool) list \<Rightarrow> ustring option list" where
  "outline_numbers U c [] = []"
| "outline_numbers U c (pb # w) =
     (case p_ilvl U (fst pb) of
        None \<Rightarrow> None # outline_numbers U c w
      | Some ilvl \<Rightarrow>
          if auto_numbered U pb ilvl
          then (case number_at_depth c (depth_of ilvl) of
                  (c', n) \<Rightarrow> Some n # outline_numbers U c' w)
          else None # outline_numbers U c w)"

definition auto_levels :: "runtime \<Rightarrow> (element \<times> bool) list \<Rightarrow> int list" where
  "auto_levels U w =
     concat (map (\<lambda>pb. case p_ilvl U (fst pb) of
                          None \<Rightarrow> []
                        | Some ilvl \<Rightarrow> if auto_numbered U pb ilvl then [ilvl] else []) w)"

definition numbers_at :: "Heading list \<Rightarrow> nat \<Rightarrow> ustring option list" where
  "numbers_at hs i = map h_number (filter (\<lambda>h. h_para_index h = int i) hs)"

definition auto_headings :: "runtime \<Rightarrow> (element \<times> bool) list \<Rightarrow> Heading list \<Rightarrow> Heading list" where
  "auto_headings U w hs =
     filter (\<lambda>h. outline_numbers U (\<lambda>k. 0) w ! nat (h_para_index h) \<noteq> None) hs"

section \<open>Running the model\<close>

text \<open>
  Facts for evaluating the model on concrete documents with the simplifier: literals,
  the fields of the runtime \<open>latin1\<close>, and the defining equations of the string and
  pattern functions.
\<close>

lemma ustr_eq_iff [simp]: "(ustr a = ustr b) = (a = b)"
proof -
  have "inj (of_char :: char \<Rightarrow> nat)"
    by (rule injI) simp
  then have "inj (map (of_char :: char \<Rightarrow> nat))"
    by (rule iffD2[OF inj_map])
  then show ?thesis
    by (auto simp: ustr_def dest: injD)
qed

lemma ustr_Nil [simp]: "(ustr a = []) = (a = [])" "([] = ustr a) = (a = [])"
  by (auto simp: ustr_def)

lemma length_ustr [simp]: "length (ustr a) = length a"
  by (simp add: ustr_def)

lemma wname_eq_iff [simp]: "(wname a = wname b) = (a = b)"
  by (simp add: wname_def)

lemma latin1_sel:
  "nfkc latin1 = l1_nfkc" "str_lower latin1 = map l1_lower_char" "isspace latin1 = l1_isspace"
  "isdecimal latin1 = l1_isdecimal" "isdigit latin1 = l1_isdigit" "isalnum latin1 = l1_isalnum"
  "py_int latin1 = l1_int" "str_title latin1 = l1_title"
  by (simp_all add: latin1_def)

lemma latin1_iter:
  "strict_iter latin1 = [ustr ''literatur'', ustr ''ergebnisse'', ustr ''diskussion'',
                         ustr ''abstract'', ustr ''abkuerzungen'']"
  "prefix_iter latin1 = [ustr ''einleitung'', ustr ''theorie'', ustr ''methode'', ustr ''fazit'']"
  by (simp_all add: latin1_def)

lemma rrep_4: "rrep 4 r = Seq r (Seq r (Seq r (Seq r Eps)))"
  by (simp add: numeral_eq_Suc)

lemma upto_3: "upto_n 3 r = ropt (Seq r (ropt (Seq r (ropt (Seq r Eps)))))"
  by (simp add: numeral_eq_Suc)

lemmas l1_defs = l1_isspace_def l1_isdecimal_def l1_isdigit_def l1_isalpha_def l1_isalnum_def
  l1_lower_char_def l1_nfkc_def l1_nfkc_char_def l1_upper_char_def l1_title_def unsigned_value_def
  l1_int_def int_space_def int_max_str_digits_def

lemmas str_defs = lstrip_def rstrip_def strip_def replace_char_def startswith_def count_char_def
  str_isdigit_def str_nat_def str_int_def

lemmas re_defs = rrep_4 upto_3 step_if_def remaining_def word_before_def word_after_def
  capture_def is_word_def seqs_def lits_def rplus_def ropt_def first_match_def re_match_def
  re_search_def groups_def group_def re_findall_def re_sub_def re_scan.simps

lemmas pat_defs = sp_def dg_def lower_de_def dotted_number_def NUMBERING_RE_def spaces_re_def
  leading_number_re_def trailing_punct_re_def dot_leader_re_def page_number_def toc_glued_re_def
  toc_numbered_re_def toc_plain_re_def

lemmas eval_defs = ustr_def latin1_sel l1_defs str_defs re_defs pat_defs

lemma localname_p [simp]: "localname (Element (wname ''p'') a x cs) = ustr ''p''"
  by (simp add: localname_def wname_def w_ns_def ustr_def)

lemma localname_tbl [simp]: "localname (Element (wname ''tbl'') a x cs) = ustr ''tbl''"
  by (simp add: localname_def wname_def w_ns_def ustr_def)

lemma localname_tr [simp]: "localname (Element (wname ''tr'') a x cs) = ustr ''tr''"
  by (simp add: localname_def wname_def w_ns_def ustr_def)

lemma localname_tc [simp]: "localname (Element (wname ''tc'') a x cs) = ustr ''tc''"
  by (simp add: localname_def wname_def w_ns_def ustr_def)

lemma localname_r [simp]: "localname (Element (wname ''r'') a x cs) = ustr ''r''"
  by (simp add: localname_def wname_def w_ns_def ustr_def)

lemma localname_txbx [simp]:
  "localname (Element (wname ''txbxContent'') a x cs) = ustr ''txbxContent''"
  by (simp add: localname_def wname_def w_ns_def ustr_def)

lemma localname_plain [simp]: "localname (plain_paragraph s) = ustr ''p''"
  by (simp add: plain_paragraph_def)

lemma p_text_plain:
  "p_text U (plain_paragraph s) = strip U (replace_char 160 32 (nfkc U (ustr s)))"
  by (simp add: p_text_def plain_paragraph_def run_of_def)

lemma p_style_plain: "p_style U (plain_paragraph s) = []"
  by (simp add: p_style_def plain_paragraph_def run_of_def find_child_def)

lemma p_ilvl_plain: "p_ilvl U (plain_paragraph s) = None"
  by (simp add: p_ilvl_def plain_paragraph_def run_of_def find_child_def)

lemma level_empty: "heading_level_from_style latin1 [] = None"
  by (simp add: heading_level_from_style_def eval_defs)

lemma find_body:
  "find_descendant (wname ''body'') (document_of ps) = Some (Element (wname ''body'') [] None ps)"
  by (simp add: find_descendant_def document_of_def)

lemma walk_plain:
  "walk_body_paragraphs (Element (wname ''body'') [] None (map plain_paragraph texts))
     = map (\<lambda>s. (plain_paragraph s, False)) texts"
proof -
  have "concat (map (\<lambda>s. [(plain_paragraph s, False)]) texts)
        = map (\<lambda>s. (plain_paragraph s, False)) texts"
    by (induction texts) simp_all
  then show ?thesis
    by (simp add: walk_body_paragraphs_def comp_def)
qed

subsection \<open>The keywords under \<open>latin1\<close>\<close>

lemmas norm_title_eval = normalize_title_def eval_defs

lemma kw_fix_abstract:
  "map (normalize_title latin1) (keywords_of (ustr ''abstract'')) = keywords_of (ustr ''abstract'')"
  by (simp add: keywords_of_def SECTION_KEYWORDS_def norm_title_eval)

lemma kw_fix_abkuerzungen:
  "map (normalize_title latin1) (keywords_of (ustr ''abkuerzungen'')) = keywords_of (ustr ''abkuerzungen'')"
  by (simp add: keywords_of_def SECTION_KEYWORDS_def norm_title_eval)

lemma kw_fix_einleitung:
  "map (normalize_title latin1) (keywords_of (ustr ''einleitung'')) = keywords_of (ustr ''einleitung'')"
  by (simp add: keywords_of_def SECTION_KEYWORDS_def norm_title_eval)

lemma kw_fix_theorie:
  "map (normalize_title latin1) (keywords_of (ustr ''theorie'')) = keywords_of (ustr ''theorie'')"
  by (simp add: keywords_of_def SECTION_KEYWORDS_def norm_title_eval)

lemma kw_fix_methode:
  "map (normalize_title latin1) (keywords_of (ustr ''methode'')) = keywords_of (ustr ''methode'')"
  by (simp add: keywords_of_def SECTION_KEYWORDS_def norm_title_eval)

lemma kw_fix_ergebnisse:
  "map (normalize_title latin1) (keywords_of (ustr ''ergebnisse'')) = keywords_of (ustr ''ergebnisse'')"
  by (simp add: keywords_of_def SECTION_KEYWORDS_def norm_title_eval)

lemma kw_fix_diskussion:
  "map (normalize_title latin1) (keywords_of (ustr ''diskussion'')) = keywords_of (ustr ''diskussion'')"
  by (simp add: keywords_of_def SECTION_KEYWORDS_def norm_title_eval)

lemma kw_fix_fazit:
  "map (normalize_title latin1) (keywords_of (ustr ''fazit'')) = keywords_of (ustr ''fazit'')"
  by (simp add: keywords_of_def SECTION_KEYWORDS_def norm_title_eval)

lemma kw_fix_literatur:
  "map (normalize_title latin1) (keywords_of (ustr ''literatur'')) = keywords_of (ustr ''literatur'')"
  by (simp add: keywords_of_def SECTION_KEYWORDS_def norm_title_eval)

lemma keywords_of_cases:
  "keywords_of k \<noteq> [] \<Longrightarrow>
   k \<in> {ustr ''abstract'', ustr ''abkuerzungen'', ustr ''einleitung'', ustr ''theorie'', ustr ''methode'', ustr ''ergebnisse'', ustr ''diskussion'', ustr ''fazit'', ustr ''literatur''}"
  by (auto simp add: keywords_of_def SECTION_KEYWORDS_def split: if_splits)

lemma kw_fixed:
  assumes "kw \<in> set (keywords_of k)"
  shows "normalize_title latin1 kw = kw"
proof -
  from assms have ne: "keywords_of k \<noteq> []" by auto
  have "map (normalize_title latin1) (keywords_of k) = keywords_of k"
    using keywords_of_cases[OF ne]
    by (auto simp add: kw_fix_abstract kw_fix_abkuerzungen kw_fix_einleitung kw_fix_theorie kw_fix_methode kw_fix_ergebnisse kw_fix_diskussion kw_fix_fazit kw_fix_literatur)
  then have "\<forall>x \<in> set (keywords_of k). normalize_title latin1 x = x"
    by (simp add: map_idI[symmetric] map_eq_conv[where g="\<lambda>x. x", simplified])
  with assms show ?thesis by blast
qed

lemma keywords_normal_latin1: "keywords_normal latin1"
  by (simp add: keywords_normal_def kw_fixed)

lemma keywords_of_table:
  assumes "(k, kws) \<in> set SECTION_KEYWORDS"
  shows "keywords_of k = kws"
proof -
  have "distinct (map fst SECTION_KEYWORDS)"
    by (simp add: SECTION_KEYWORDS_def)
  with assms show ?thesis by (simp add: keywords_of_def)
qed

lemma exact_kw_l1:
  "exact_kw latin1 t (keywords_of k) = (t \<in> set (keywords_of k))"
  unfolding exact_kw_def list_ex_iff
  using kw_fixed[of _ k] by auto

lemma prefix_kw_l1:
  "prefix_kw latin1 t (keywords_of k) =
     list_ex (\<lambda>kw. kw \<noteq> [] \<and> startswith t (kw @ [32])) (keywords_of k)"
  unfolding prefix_kw_def list_ex_iff Let_def
  using kw_fixed[of _ k] by auto

lemma exact_rest_l1:
  "exact_rest latin1 t =
     map_option fst (find (\<lambda>(k, kws). k \<notin> STRICT_ONLY_KEYS \<and> t \<in> set kws) SECTION_KEYWORDS)"
proof -
  have "\<And>k kws. (k, kws) \<in> set SECTION_KEYWORDS \<Longrightarrow> exact_kw latin1 t kws = (t \<in> set kws)"
    using exact_kw_l1 keywords_of_table by metis
  then have "find (\<lambda>(k, kws). k \<notin> STRICT_ONLY_KEYS \<and> exact_kw latin1 t kws) SECTION_KEYWORDS
           = find (\<lambda>(k, kws). k \<notin> STRICT_ONLY_KEYS \<and> t \<in> set kws) SECTION_KEYWORDS"
    by (intro find_cong) auto
  then show ?thesis by (simp add: exact_rest_def)
qed

lemmas key_tables = find_section_key_def exact_strict_def prefix_key_def exact_kw_l1 prefix_kw_l1
  exact_rest_l1

lemmas key_eval = latin1_iter keywords_of_def SECTION_KEYWORDS_def STRICT_ONLY_KEYS_def
  is_top_level_def literaturrecherche_re_def theory_re_def normalize_title_def eval_defs

section \<open>The registry\<close>

text \<open>
  Claim C3. \<open>get_all_rules\<close> is one fixed list of 23 rule classes without repetition.
  The eight classes \<open>CitationDensityRule\<close>, \<open>ReferenceYearsRule\<close>,
  \<open>AbbreviationsListExistsRule\<close>, \<open>DefinitionsPresentRule\<close>,
  \<open>ConclusionChapterExistsRule\<close>, \<open>AbstractExistsRule\<close>,
  \<open>IntroHasStructureOverviewRule\<close> and \<open>CaptionsPresentRule\<close> are exactly the imported
  classes that the list does not contain, and none of their rule ids is the id of a
  registered rule: a pass over the registry runs none of these checks.
\<close>

theorem registry_fixed_23:
  "length get_all_rules = 23 \<and> distinct get_all_rules \<and>
   set imported_not_registered = UNIV - set get_all_rules \<and>
   set (map id_of imported_not_registered) \<inter> set (map id_of get_all_rules) = {}"
proof -
  have len: "length get_all_rules = 23"
    by (simp add: get_all_rules_def)
  have dis: "distinct get_all_rules"
    by (simp add: get_all_rules_def)
  have compl: "set imported_not_registered = UNIV - set get_all_rules"
  proof (rule set_eqI)
    fix r
    show "(r \<in> set imported_not_registered) = (r \<in> UNIV - set get_all_rules)"
      by (cases r) (simp_all add: imported_not_registered_def get_all_rules_def)
  qed
  have ids: "set (map id_of imported_not_registered) \<inter> set (map id_of get_all_rules) = {}"
    by (simp add: imported_not_registered_def get_all_rules_def)
  from len dis compl ids show ?thesis by blast
qed

subsection \<open>The paragraphs of the example documents\<close>

lemma pt_inh: "p_text latin1 (plain_paragraph ''Inhaltsverzeichnis'') = ustr ''Inhaltsverzeichnis''"
  unfolding p_text_plain by (simp add: eval_defs)

lemma ns_inh: "normalize_simple latin1 (ustr ''Inhaltsverzeichnis'') = ustr ''inhaltsverzeichnis''"
  by (simp add: normalize_simple_def eval_defs)

lemma toc_inh: "looks_like_toc_line latin1 (ustr ''Inhaltsverzeichnis'') = False"
  unfolding looks_like_toc_line_def ns_inh by (simp add: eval_defs)

lemma nm_inh: "re_match latin1 NUMBERING_RE (ustr ''Inhaltsverzeichnis'') = None"
  by (simp add: eval_defs)

lemma key_inh: "find_section_key latin1 (ustr ''Inhaltsverzeichnis'') None None = None"
  unfolding key_tables by (simp add: key_eval)

lemma cl_inh:
  "classify latin1 idx (plain_paragraph ''Inhaltsverzeichnis'', False) (ps, hs, cs)
     = (ps @ [ustr ''Inhaltsverzeichnis''], hs, cs)"
  by (simp add: classify_def pt_inh p_style_plain p_ilvl_plain level_empty nm_inh
        key_inh number_level_def truthy_def Let_def)

lemma pt_tl1: "p_text latin1 (plain_paragraph ''1. Einleitung ....... 3'') = ustr ''1. Einleitung ....... 3''"
  unfolding p_text_plain by (simp add: eval_defs)

lemma ns_tl1: "normalize_simple latin1 (ustr ''1. Einleitung ....... 3'') = ustr ''1. einleitung ....... 3''"
  by (simp add: normalize_simple_def eval_defs)

lemma toc_tl1: "looks_like_toc_line latin1 (ustr ''1. Einleitung ....... 3'') = True"
  unfolding looks_like_toc_line_def ns_tl1 by (simp add: eval_defs)

lemma nm_tl1:
  "re_match latin1 NUMBERING_RE (ustr ''1. Einleitung ....... 3'')
     = Some (Some 51, [], [ustr ''1'', ustr ''Einleitung ....... 3''])"
  by (simp add: eval_defs)

lemma st_tl1: "strip latin1 (ustr ''Einleitung ....... 3'') = ustr ''Einleitung ....... 3''"
  by (simp add: eval_defs)

lemma cnt_tl1: "count_char 46 (ustr ''1'') = 0"
  by (simp add: eval_defs)

lemma key_tl1:
  "find_section_key latin1 (ustr ''Einleitung ....... 3'') (Some 1) (Some (ustr ''1''))
     = Some (ustr ''einleitung'')"
  unfolding key_tables by (simp add: key_eval)

lemma cl_tl1:
  "classify latin1 idx (plain_paragraph ''1. Einleitung ....... 3'', False) (ps, hs, cs) =
     (ps @ [ustr ''1. Einleitung ....... 3''],
      hs @ [\<lparr> h_text = ustr ''Einleitung ....... 3'', h_level = 1, h_number = Some (ustr ''1''),
                h_para_index = int idx \<rparr>], cs)"
  by (simp add: classify_def pt_tl1 p_style_plain p_ilvl_plain level_empty nm_tl1 st_tl1 cnt_tl1
        key_tl1 number_level_def truthy_def group_def groups_def Let_def)

lemma pt_tl2: "p_text latin1 (plain_paragraph ''2. Methode ....... 10'') = ustr ''2. Methode ....... 10''"
  unfolding p_text_plain by (simp add: eval_defs)

lemma ns_tl2: "normalize_simple latin1 (ustr ''2. Methode ....... 10'') = ustr ''2. methode ....... 10''"
  by (simp add: normalize_simple_def eval_defs)

lemma toc_tl2: "looks_like_toc_line latin1 (ustr ''2. Methode ....... 10'') = True"
  unfolding looks_like_toc_line_def ns_tl2 by (simp add: eval_defs)

lemma nm_tl2:
  "re_match latin1 NUMBERING_RE (ustr ''2. Methode ....... 10'')
     = Some (Some 48, [], [ustr ''2'', ustr ''Methode ....... 10''])"
  by (simp add: eval_defs)

lemma st_tl2: "strip latin1 (ustr ''Methode ....... 10'') = ustr ''Methode ....... 10''"
  by (simp add: eval_defs)

lemma cnt_tl2: "count_char 46 (ustr ''2'') = 0"
  by (simp add: eval_defs)

lemma key_tl2:
  "find_section_key latin1 (ustr ''Methode ....... 10'') (Some 1) (Some (ustr ''2''))
     = Some (ustr ''methode'')"
  unfolding key_tables by (simp add: key_eval)

lemma cl_tl2:
  "classify latin1 idx (plain_paragraph ''2. Methode ....... 10'', False) (ps, hs, cs) =
     (ps @ [ustr ''2. Methode ....... 10''],
      hs @ [\<lparr> h_text = ustr ''Methode ....... 10'', h_level = 1, h_number = Some (ustr ''2''),
                h_para_index = int idx \<rparr>], cs)"
  by (simp add: classify_def pt_tl2 p_style_plain p_ilvl_plain level_empty nm_tl2 st_tl2 cnt_tl2
        key_tl2 number_level_def truthy_def group_def groups_def Let_def)

lemma pt_einl: "p_text latin1 (plain_paragraph ''Einleitung'') = ustr ''Einleitung''"
  unfolding p_text_plain by (simp add: eval_defs)

lemma ns_einl: "normalize_simple latin1 (ustr ''Einleitung'') = ustr ''einleitung''"
  by (simp add: normalize_simple_def eval_defs)

lemma toc_einl: "looks_like_toc_line latin1 (ustr ''Einleitung'') = False"
  unfolding looks_like_toc_line_def ns_einl by (simp add: eval_defs)

lemma nm_einl: "re_match latin1 NUMBERING_RE (ustr ''Einleitung'') = None"
  by (simp add: eval_defs)

lemma key_einl: "find_section_key latin1 (ustr ''Einleitung'') None None = Some (ustr ''einleitung'')"
  unfolding key_tables by (simp add: key_eval)

lemma cl_einl:
  "classify latin1 idx (plain_paragraph ''Einleitung'', False) (ps, hs, cs) =
     (ps @ [ustr ''Einleitung''],
      hs @ [\<lparr> h_text = ustr ''Einleitung'', h_level = 1, h_number = None,
                h_para_index = int idx \<rparr>], cs)"
  by (simp add: classify_def pt_einl p_style_plain p_ilvl_plain level_empty nm_einl
        key_einl number_level_def truthy_def Let_def)

lemma pt_txt: "p_text latin1 (plain_paragraph ''Text...'') = ustr ''Text...''"
  unfolding p_text_plain by (simp add: eval_defs)

lemma ns_txt: "normalize_simple latin1 (ustr ''Text...'') = ustr ''text...''"
  by (simp add: normalize_simple_def eval_defs)

lemma toc_txt: "looks_like_toc_line latin1 (ustr ''Text...'') = True"
  unfolding looks_like_toc_line_def ns_txt by (simp add: eval_defs)

lemma nm_txt: "re_match latin1 NUMBERING_RE (ustr ''Text...'') = None"
  by (simp add: eval_defs)

lemma key_txt: "find_section_key latin1 (ustr ''Text...'') None None = None"
  unfolding key_tables by (simp add: key_eval)

lemma cl_txt:
  "classify latin1 idx (plain_paragraph ''Text...'', False) (ps, hs, cs)
     = (ps @ [ustr ''Text...''], hs, cs)"
  by (simp add: classify_def pt_txt p_style_plain p_ilvl_plain level_empty nm_txt
        key_txt number_level_def truthy_def Let_def)

lemma pt_meth: "p_text latin1 (plain_paragraph ''Methode'') = ustr ''Methode''"
  unfolding p_text_plain by (simp add: eval_defs)

lemma ns_meth: "normalize_simple latin1 (ustr ''Methode'') = ustr ''methode''"
  by (simp add: normalize_simple_def eval_defs)

lemma toc_meth: "looks_like_toc_line latin1 (ustr ''Methode'') = False"
  unfolding looks_like_toc_line_def ns_meth by (simp add: eval_defs)

lemma nm_meth: "re_match latin1 NUMBERING_RE (ustr ''Methode'') = None"
  by (simp add: eval_defs)

lemma key_meth: "find_section_key latin1 (ustr ''Methode'') None None = Some (ustr ''methode'')"
  unfolding key_tables by (simp add: key_eval)

lemma cl_meth:
  "classify latin1 idx (plain_paragraph ''Methode'', False) (ps, hs, cs) =
     (ps @ [ustr ''Methode''],
      hs @ [\<lparr> h_text = ustr ''Methode'', h_level = 1, h_number = None,
                h_para_index = int idx \<rparr>], cs)"
  by (simp add: classify_def pt_meth p_style_plain p_ilvl_plain level_empty nm_meth
        key_meth number_level_def truthy_def Let_def)

lemma pt_c1: "p_text latin1 (plain_paragraph ''1 Einleitung'') = ustr ''1 Einleitung''"
  unfolding p_text_plain by (simp add: eval_defs)

lemma ns_c1: "normalize_simple latin1 (ustr ''1 Einleitung'') = ustr ''1 einleitung''"
  by (simp add: normalize_simple_def eval_defs)

lemma nm_c1:
  "re_match latin1 NUMBERING_RE (ustr ''1 Einleitung'')
     = Some (Some 103, [], [ustr ''1'', ustr ''Einleitung''])"
  by (simp add: eval_defs)

lemma st_c1: "strip latin1 (ustr ''Einleitung'') = ustr ''Einleitung''"
  by (simp add: eval_defs)

lemma cnt_c1: "count_char 46 (ustr ''1'') = 0"
  by (simp add: eval_defs)

lemma key_c1:
  "find_section_key latin1 (ustr ''Einleitung'') (Some 1) (Some (ustr ''1''))
     = Some (ustr ''einleitung'')"
  unfolding key_tables by (simp add: key_eval)

lemma cl_c1:
  "classify latin1 idx (plain_paragraph ''1 Einleitung'', False) (ps, hs, cs) =
     (ps @ [ustr ''1 Einleitung''],
      hs @ [\<lparr> h_text = ustr ''Einleitung'', h_level = 1, h_number = Some (ustr ''1''),
                h_para_index = int idx \<rparr>], cs)"
  by (simp add: classify_def pt_c1 p_style_plain p_ilvl_plain level_empty nm_c1 st_c1 cnt_c1
        key_c1 number_level_def truthy_def group_def groups_def Let_def)

lemma pt_c2: "p_text latin1 (plain_paragraph ''2 Methode'') = ustr ''2 Methode''"
  unfolding p_text_plain by (simp add: eval_defs)

lemma ns_c2: "normalize_simple latin1 (ustr ''2 Methode'') = ustr ''2 methode''"
  by (simp add: normalize_simple_def eval_defs)

lemma nm_c2:
  "re_match latin1 NUMBERING_RE (ustr ''2 Methode'')
     = Some (Some 101, [], [ustr ''2'', ustr ''Methode''])"
  by (simp add: eval_defs)

lemma st_c2: "strip latin1 (ustr ''Methode'') = ustr ''Methode''"
  by (simp add: eval_defs)

lemma cnt_c2: "count_char 46 (ustr ''2'') = 0"
  by (simp add: eval_defs)

lemma key_c2:
  "find_section_key latin1 (ustr ''Methode'') (Some 1) (Some (ustr ''2''))
     = Some (ustr ''methode'')"
  unfolding key_tables by (simp add: key_eval)

lemma cl_c2:
  "classify latin1 idx (plain_paragraph ''2 Methode'', False) (ps, hs, cs) =
     (ps @ [ustr ''2 Methode''],
      hs @ [\<lparr> h_text = ustr ''Methode'', h_level = 1, h_number = Some (ustr ''2''),
                h_para_index = int idx \<rparr>], cs)"
  by (simp add: classify_def pt_c2 p_style_plain p_ilvl_plain level_empty nm_c2 st_c2 cnt_c2
        key_c2 number_level_def truthy_def group_def groups_def Let_def)

lemma pt_c3: "p_text latin1 (plain_paragraph ''3 Ergebnisse'') = ustr ''3 Ergebnisse''"
  unfolding p_text_plain by (simp add: eval_defs)

lemma ns_c3: "normalize_simple latin1 (ustr ''3 Ergebnisse'') = ustr ''3 ergebnisse''"
  by (simp add: normalize_simple_def eval_defs)

lemma nm_c3:
  "re_match latin1 NUMBERING_RE (ustr ''3 Ergebnisse'')
     = Some (Some 101, [], [ustr ''3'', ustr ''Ergebnisse''])"
  by (simp add: eval_defs)

lemma st_c3: "strip latin1 (ustr ''Ergebnisse'') = ustr ''Ergebnisse''"
  by (simp add: eval_defs)

lemma cnt_c3: "count_char 46 (ustr ''3'') = 0"
  by (simp add: eval_defs)

lemma key_c3:
  "find_section_key latin1 (ustr ''Ergebnisse'') (Some 1) (Some (ustr ''3''))
     = Some (ustr ''ergebnisse'')"
  unfolding key_tables by (simp add: key_eval)

lemma cl_c3:
  "classify latin1 idx (plain_paragraph ''3 Ergebnisse'', False) (ps, hs, cs) =
     (ps @ [ustr ''3 Ergebnisse''],
      hs @ [\<lparr> h_text = ustr ''Ergebnisse'', h_level = 1, h_number = Some (ustr ''3''),
                h_para_index = int idx \<rparr>], cs)"
  by (simp add: classify_def pt_c3 p_style_plain p_ilvl_plain level_empty nm_c3 st_c3 cnt_c3
        key_c3 number_level_def truthy_def group_def groups_def Let_def)

lemma pt_c4: "p_text latin1 (plain_paragraph ''4 Diskussion'') = ustr ''4 Diskussion''"
  unfolding p_text_plain by (simp add: eval_defs)

lemma ns_c4: "normalize_simple latin1 (ustr ''4 Diskussion'') = ustr ''4 diskussion''"
  by (simp add: normalize_simple_def eval_defs)

lemma nm_c4:
  "re_match latin1 NUMBERING_RE (ustr ''4 Diskussion'')
     = Some (Some 110, [], [ustr ''4'', ustr ''Diskussion''])"
  by (simp add: eval_defs)

lemma st_c4: "strip latin1 (ustr ''Diskussion'') = ustr ''Diskussion''"
  by (simp add: eval_defs)

lemma cnt_c4: "count_char 46 (ustr ''4'') = 0"
  by (simp add: eval_defs)

lemma key_c4:
  "find_section_key latin1 (ustr ''Diskussion'') (Some 1) (Some (ustr ''4''))
     = Some (ustr ''diskussion'')"
  unfolding key_tables by (simp add: key_eval)

lemma cl_c4:
  "classify latin1 idx (plain_paragraph ''4 Diskussion'', False) (ps, hs, cs) =
     (ps @ [ustr ''4 Diskussion''],
      hs @ [\<lparr> h_text = ustr ''Diskussion'', h_level = 1, h_number = Some (ustr ''4''),
                h_para_index = int idx \<rparr>], cs)"
  by (simp add: classify_def pt_c4 p_style_plain p_ilvl_plain level_empty nm_c4 st_c4 cnt_c4
        key_c4 number_level_def truthy_def group_def groups_def Let_def)

lemma pt_c5: "p_text latin1 (plain_paragraph ''5 Fazit'') = ustr ''5 Fazit''"
  unfolding p_text_plain by (simp add: eval_defs)

lemma ns_c5: "normalize_simple latin1 (ustr ''5 Fazit'') = ustr ''5 fazit''"
  by (simp add: normalize_simple_def eval_defs)

lemma nm_c5:
  "re_match latin1 NUMBERING_RE (ustr ''5 Fazit'')
     = Some (Some 116, [], [ustr ''5'', ustr ''Fazit''])"
  by (simp add: eval_defs)

lemma st_c5: "strip latin1 (ustr ''Fazit'') = ustr ''Fazit''"
  by (simp add: eval_defs)

lemma cnt_c5: "count_char 46 (ustr ''5'') = 0"
  by (simp add: eval_defs)

lemma key_c5:
  "find_section_key latin1 (ustr ''Fazit'') (Some 1) (Some (ustr ''5''))
     = Some (ustr ''fazit'')"
  unfolding key_tables by (simp add: key_eval)

lemma cl_c5:
  "classify latin1 idx (plain_paragraph ''5 Fazit'', False) (ps, hs, cs) =
     (ps @ [ustr ''5 Fazit''],
      hs @ [\<lparr> h_text = ustr ''Fazit'', h_level = 1, h_number = Some (ustr ''5''),
                h_para_index = int idx \<rparr>], cs)"
  by (simp add: classify_def pt_c5 p_style_plain p_ilvl_plain level_empty nm_c5 st_c5 cnt_c5
        key_c5 number_level_def truthy_def group_def groups_def Let_def)

lemma pt_c6: "p_text latin1 (plain_paragraph ''6 Literaturverzeichnis'') = ustr ''6 Literaturverzeichnis''"
  unfolding p_text_plain by (simp add: eval_defs)

lemma ns_c6: "normalize_simple latin1 (ustr ''6 Literaturverzeichnis'') = ustr ''6 literaturverzeichnis''"
  by (simp add: normalize_simple_def eval_defs)

lemma nm_c6:
  "re_match latin1 NUMBERING_RE (ustr ''6 Literaturverzeichnis'')
     = Some (Some 115, [], [ustr ''6'', ustr ''Literaturverzeichnis''])"
  by (simp add: eval_defs)

lemma st_c6: "strip latin1 (ustr ''Literaturverzeichnis'') = ustr ''Literaturverzeichnis''"
  by (simp add: eval_defs)

lemma cnt_c6: "count_char 46 (ustr ''6'') = 0"
  by (simp add: eval_defs)

lemma key_c6:
  "find_section_key latin1 (ustr ''Literaturverzeichnis'') (Some 1) (Some (ustr ''6''))
     = Some (ustr ''literatur'')"
  unfolding key_tables by (simp add: key_eval)

lemma cl_c6:
  "classify latin1 idx (plain_paragraph ''6 Literaturverzeichnis'', False) (ps, hs, cs) =
     (ps @ [ustr ''6 Literaturverzeichnis''],
      hs @ [\<lparr> h_text = ustr ''Literaturverzeichnis'', h_level = 1, h_number = Some (ustr ''6''),
                h_para_index = int idx \<rparr>], cs)"
  by (simp add: classify_def pt_c6 p_style_plain p_ilvl_plain level_empty nm_c6 st_c6 cnt_c6
        key_c6 number_level_def truthy_def group_def groups_def Let_def)

lemma pt_theo: "p_text latin1 (plain_paragraph ''Theorie'') = ustr ''Theorie''"
  unfolding p_text_plain by (simp add: eval_defs)

lemma ns_theo: "normalize_simple latin1 (ustr ''Theorie'') = ustr ''theorie''"
  by (simp add: normalize_simple_def eval_defs)

lemma nm_theo: "re_match latin1 NUMBERING_RE (ustr ''Theorie'') = None"
  by (simp add: eval_defs)

lemma key_theo: "find_section_key latin1 (ustr ''Theorie'') None None = Some (ustr ''theorie'')"
  unfolding key_tables by (simp add: key_eval)

lemma cl_theo:
  "classify latin1 idx (plain_paragraph ''Theorie'', False) (ps, hs, cs) =
     (ps @ [ustr ''Theorie''],
      hs @ [\<lparr> h_text = ustr ''Theorie'', h_level = 1, h_number = None,
                h_para_index = int idx \<rparr>], cs)"
  by (simp add: classify_def pt_theo p_style_plain p_ilvl_plain level_empty nm_theo
        key_theo number_level_def truthy_def Let_def)

lemma skey_theo:
  "find_section_key latin1 (ustr ''Theorie'') (Some 1) None = Some (ustr ''theorie'')"
  unfolding key_tables by (simp add: key_eval)

lemma pt_lit: "p_text latin1 (plain_paragraph ''Literaturverzeichnis'') = ustr ''Literaturverzeichnis''"
  unfolding p_text_plain by (simp add: eval_defs)

lemma ns_lit: "normalize_simple latin1 (ustr ''Literaturverzeichnis'') = ustr ''literaturverzeichnis''"
  by (simp add: normalize_simple_def eval_defs)

lemma nm_lit: "re_match latin1 NUMBERING_RE (ustr ''Literaturverzeichnis'') = None"
  by (simp add: eval_defs)

lemma key_lit: "find_section_key latin1 (ustr ''Literaturverzeichnis'') None None = Some (ustr ''literatur'')"
  unfolding key_tables by (simp add: key_eval)

lemma cl_lit:
  "classify latin1 idx (plain_paragraph ''Literaturverzeichnis'', False) (ps, hs, cs) =
     (ps @ [ustr ''Literaturverzeichnis''],
      hs @ [\<lparr> h_text = ustr ''Literaturverzeichnis'', h_level = 1, h_number = None,
                h_para_index = int idx \<rparr>], cs)"
  by (simp add: classify_def pt_lit p_style_plain p_ilvl_plain level_empty nm_lit
        key_lit number_level_def truthy_def Let_def)

lemma skey_lit:
  "find_section_key latin1 (ustr ''Literaturverzeichnis'') (Some 1) None = Some (ustr ''literatur'')"
  unfolding key_tables by (simp add: key_eval)

lemma pt_qa: "p_text latin1 (plain_paragraph ''Quelle A'') = ustr ''Quelle A''"
  unfolding p_text_plain by (simp add: eval_defs)

lemma ns_qa: "normalize_simple latin1 (ustr ''Quelle A'') = ustr ''quelle a''"
  by (simp add: normalize_simple_def eval_defs)

lemma nm_qa: "re_match latin1 NUMBERING_RE (ustr ''Quelle A'') = None"
  by (simp add: eval_defs)

lemma key_qa: "find_section_key latin1 (ustr ''Quelle A'') None None = None"
  unfolding key_tables by (simp add: key_eval)

lemma cl_qa:
  "classify latin1 idx (plain_paragraph ''Quelle A'', False) (ps, hs, cs)
     = (ps @ [ustr ''Quelle A''], hs, cs)"
  by (simp add: classify_def pt_qa p_style_plain p_ilvl_plain level_empty nm_qa
        key_qa number_level_def truthy_def Let_def)

lemma pt_qn: "p_text latin1 (plain_paragraph ''Quellen'') = ustr ''Quellen''"
  unfolding p_text_plain by (simp add: eval_defs)

lemma ns_qn: "normalize_simple latin1 (ustr ''Quellen'') = ustr ''quellen''"
  by (simp add: normalize_simple_def eval_defs)

lemma nm_qn: "re_match latin1 NUMBERING_RE (ustr ''Quellen'') = None"
  by (simp add: eval_defs)

lemma key_qn: "find_section_key latin1 (ustr ''Quellen'') None None = Some (ustr ''literatur'')"
  unfolding key_tables by (simp add: key_eval)

lemma cl_qn:
  "classify latin1 idx (plain_paragraph ''Quellen'', False) (ps, hs, cs) =
     (ps @ [ustr ''Quellen''],
      hs @ [\<lparr> h_text = ustr ''Quellen'', h_level = 1, h_number = None,
                h_para_index = int idx \<rparr>], cs)"
  by (simp add: classify_def pt_qn p_style_plain p_ilvl_plain level_empty nm_qn
        key_qn number_level_def truthy_def Let_def)

lemma skey_qn:
  "find_section_key latin1 (ustr ''Quellen'') (Some 1) None = Some (ustr ''literatur'')"
  unfolding key_tables by (simp add: key_eval)

lemma pt_qb: "p_text latin1 (plain_paragraph ''Quelle B'') = ustr ''Quelle B''"
  unfolding p_text_plain by (simp add: eval_defs)

lemma ns_qb: "normalize_simple latin1 (ustr ''Quelle B'') = ustr ''quelle b''"
  by (simp add: normalize_simple_def eval_defs)

lemma nm_qb: "re_match latin1 NUMBERING_RE (ustr ''Quelle B'') = None"
  by (simp add: eval_defs)

lemma key_qb: "find_section_key latin1 (ustr ''Quelle B'') None None = None"
  unfolding key_tables by (simp add: key_eval)

lemma cl_qb:
  "classify latin1 idx (plain_paragraph ''Quelle B'', False) (ps, hs, cs)
     = (ps @ [ustr ''Quelle B''], hs, cs)"
  by (simp add: classify_def pt_qb p_style_plain p_ilvl_plain level_empty nm_qb
        key_qb number_level_def truthy_def Let_def)

lemma cl_table:
  "p_text U p \<noteq> [] \<Longrightarrow> classify U idx (p, True) (ps, hs, cs) = (ps @ [p_text U p], hs, cs)"
  by (simp add: classify_def Let_def)

lemma ns_vorwort: "normalize_simple latin1 (ustr ''Vorwort'') = ustr ''vorwort''"
  by (simp add: normalize_simple_def eval_defs)

lemma toc_vorwort: "looks_like_toc_line latin1 (ustr ''Vorwort'') = False"
  unfolding looks_like_toc_line_def ns_vorwort by (simp add: eval_defs)

lemma ns_empty: "normalize_simple latin1 [] = []"
  by (simp add: normalize_simple_def eval_defs)

section \<open>The example with a table of contents\<close>

lemma loop_toc_example:
  "classify_loop latin1 0 (map (\<lambda>s. (plain_paragraph s, False)) toc_example)
       ([], [], replicate 10 0)
     = (map ustr toc_example,
        [\<lparr> h_text = ustr ''Einleitung ....... 3'', h_level = 1, h_number = Some (ustr ''1''),
           h_para_index = 1 \<rparr>,
         \<lparr> h_text = ustr ''Methode ....... 10'', h_level = 1, h_number = Some (ustr ''2''),
           h_para_index = 2 \<rparr>,
         \<lparr> h_text = ustr ''Einleitung'', h_level = 1, h_number = None, h_para_index = 3 \<rparr>,
         \<lparr> h_text = ustr ''Methode'', h_level = 1, h_number = None, h_para_index = 5 \<rparr>],
        replicate 10 0)"
  by (simp add: toc_example_def cl_inh cl_tl1 cl_tl2 cl_einl cl_txt cl_meth)

lemma range_toc_example: "find_toc_range latin1 (map ustr toc_example) = Some (0, 7)"
  by (simp add: find_toc_range_def toc_example_def toc_window_def non_toc_def slice_nat_def
        ns_inh ns_tl1 ns_tl2 ns_einl ns_txt ns_meth
        toc_inh toc_tl1 toc_tl2 toc_einl toc_txt toc_meth)

lemma filter_toc_example:
  "filter_toc latin1 (map ustr toc_example)
     [\<lparr> h_text = ustr ''Einleitung ....... 3'', h_level = 1, h_number = Some (ustr ''1''),
        h_para_index = 1 \<rparr>,
      \<lparr> h_text = ustr ''Methode ....... 10'', h_level = 1, h_number = Some (ustr ''2''),
        h_para_index = 2 \<rparr>,
      \<lparr> h_text = ustr ''Einleitung'', h_level = 1, h_number = None, h_para_index = 3 \<rparr>,
      \<lparr> h_text = ustr ''Methode'', h_level = 1, h_number = None, h_para_index = 5 \<rparr>]
   = [\<lparr> h_text = ustr ''Einleitung'', h_level = 1, h_number = None, h_para_index = 3 \<rparr>,
      \<lparr> h_text = ustr ''Methode'', h_level = 1, h_number = None, h_para_index = 5 \<rparr>]"
  unfolding filter_toc_def range_toc_example
  by (simp add: toc_example_def toc_tl1 toc_tl2 toc_einl toc_meth)

text \<open>
  Claim C6. The body with the seven paragraphs "Inhaltsverzeichnis",
  "1. Einleitung ....... 3", "2. Methode ....... 10", "Einleitung", "Text...", "Methode",
  "Text..." (plain paragraphs outside tables, run under \<open>latin1\<close>) gives these seven
  texts as the paragraph sequence and exactly two headings: "Einleitung" at paragraph 3
  and "Methode" at paragraph 5. The two lines with dot leaders, which the loop first
  takes for headings 1 and 2, are not in the result.
\<close>

theorem toc_lines_are_no_headings:
  "extract_paragraphs_and_headings_from_xml latin1 (document_of (map plain_paragraph toc_example))
     = (map ustr [''Inhaltsverzeichnis'', ''1. Einleitung ....... 3'', ''2. Methode ....... 10'',
                  ''Einleitung'', ''Text...'', ''Methode'', ''Text...''],
        [\<lparr> h_text = ustr ''Einleitung'', h_level = 1, h_number = None, h_para_index = 3 \<rparr>,
         \<lparr> h_text = ustr ''Methode'', h_level = 1, h_number = None, h_para_index = 5 \<rparr>])"
proof -
  have "extract_paragraphs_and_headings_from_xml latin1
          (document_of (map plain_paragraph toc_example))
        = (map ustr toc_example,
           [\<lparr> h_text = ustr ''Einleitung'', h_level = 1, h_number = None, h_para_index = 3 \<rparr>,
            \<lparr> h_text = ustr ''Methode'', h_level = 1, h_number = None, h_para_index = 5 \<rparr>])"
    unfolding extract_paragraphs_and_headings_from_xml_def find_body
    by (simp add: walk_plain loop_toc_example filter_toc_example)
  then show ?thesis by (simp add: toc_example_def)
qed

section \<open>Citation signals\<close>

lemmas cite_defs = bracket_block_re_def author_year_re_def etal_re_def ci_def

lemma blocks_citation_example:
  "re_findall latin1 bracket_block_re citation_example = [(ustr ''[1,3-5]'', [ustr ''1,3-5''])]"
  by (simp add: citation_example_def cite_defs eval_defs)

lemma digits_in_block:
  "re_findall latin1 (rplus dg) (replace_char 8212 45 (replace_char 8211 45 (ustr ''1,3-5'')))
     = [(ustr ''1'', []), (ustr ''3'', []), (ustr ''5'', [])]"
  by (simp add: eval_defs)

lemma author_year_citation_example:
  "re_findall latin1 author_year_re citation_example
     = [(ustr ''(M'' @ [252] @ ustr ''ller, 2020)'', [])]"
  by (simp add: citation_example_def cite_defs eval_defs)

lemma etal_citation_example:
  "re_findall latin1 etal_re citation_example = [(ustr ''et al.'', [])]"
  by (simp add: citation_example_def cite_defs eval_defs)

lemma full_text_single: "full_text [citation_example] = citation_example"
  by (simp add: full_text_def citation_example_def)

text \<open>
  Claim C10. For the one paragraph "Studies [1,3-5] and (M\<open>\<uuml>\<close>ller, 2020) show... et al.
  confirm." (the \<open>\<uuml>\<close> being U+00FC), the citation signals are one numeric block, one
  author-year citation and one "et al.".
\<close>

theorem citation_signals_of_example:
  "extract_citation_signals latin1 [citation_example]
     = \<lparr> numeric_count = 1, author_year_count = 1, etal_count = 1 \<rparr>"
  unfolding extract_citation_signals_def full_text_single Let_def blocks_citation_example
    author_year_citation_example etal_citation_example
  by (simp add: digits_in_block)

section \<open>Required chapters\<close>

lemma extraction_without_toc:
  assumes "find_title_index latin1 (map ustr texts) 0 = None"
    and "classify_loop latin1 0 (map (\<lambda>s. (plain_paragraph s, False)) texts)
           ([], [], replicate 10 0) = (map ustr texts, hs, cs)"
  shows "extract_paragraphs_and_headings_from_xml latin1 (document_of (map plain_paragraph texts))
           = (map ustr texts, hs)"
  unfolding extract_paragraphs_and_headings_from_xml_def find_body
  using assms by (simp add: walk_plain filter_toc_def find_toc_range_def)

lemma extract_six_chapters:
  "extract_paragraphs_and_headings_from_xml latin1 (document_of (map plain_paragraph six_chapters))
     = (map ustr six_chapters,
        [\<lparr> h_text = ustr ''Einleitung'', h_level = 1, h_number = Some (ustr ''1''),
           h_para_index = 0 \<rparr>,
         \<lparr> h_text = ustr ''Methode'', h_level = 1, h_number = Some (ustr ''2''),
           h_para_index = 1 \<rparr>,
         \<lparr> h_text = ustr ''Ergebnisse'', h_level = 1, h_number = Some (ustr ''3''),
           h_para_index = 2 \<rparr>,
         \<lparr> h_text = ustr ''Diskussion'', h_level = 1, h_number = Some (ustr ''4''),
           h_para_index = 3 \<rparr>,
         \<lparr> h_text = ustr ''Fazit'', h_level = 1, h_number = Some (ustr ''5''),
           h_para_index = 4 \<rparr>,
         \<lparr> h_text = ustr ''Literaturverzeichnis'', h_level = 1, h_number = Some (ustr ''6''),
           h_para_index = 5 \<rparr>])"
proof (rule extraction_without_toc)
  show "find_title_index latin1 (map ustr six_chapters) 0 = None"
    by (simp add: six_chapters_def ns_c1 ns_c2 ns_c3 ns_c4 ns_c5 ns_c6)
  show "classify_loop latin1 0 (map (\<lambda>s. (plain_paragraph s, False)) six_chapters)
          ([], [], replicate 10 0)
        = (map ustr six_chapters,
           [\<lparr> h_text = ustr ''Einleitung'', h_level = 1, h_number = Some (ustr ''1''),
              h_para_index = 0 \<rparr>,
            \<lparr> h_text = ustr ''Methode'', h_level = 1, h_number = Some (ustr ''2''),
              h_para_index = 1 \<rparr>,
            \<lparr> h_text = ustr ''Ergebnisse'', h_level = 1, h_number = Some (ustr ''3''),
              h_para_index = 2 \<rparr>,
            \<lparr> h_text = ustr ''Diskussion'', h_level = 1, h_number = Some (ustr ''4''),
              h_para_index = 3 \<rparr>,
            \<lparr> h_text = ustr ''Fazit'', h_level = 1, h_number = Some (ustr ''5''),
              h_para_index = 4 \<rparr>,
            \<lparr> h_text = ustr ''Literaturverzeichnis'', h_level = 1, h_number = Some (ustr ''6''),
              h_para_index = 5 \<rparr>],
           replicate 10 0)"
    by (simp add: six_chapters_def cl_c1 cl_c2 cl_c3 cl_c4 cl_c5 cl_c6)
qed

lemma extract_seven_chapters:
  "extract_paragraphs_and_headings_from_xml latin1
       (document_of (map plain_paragraph seven_chapters))
     = (map ustr seven_chapters,
        [\<lparr> h_text = ustr ''Einleitung'', h_level = 1, h_number = Some (ustr ''1''),
           h_para_index = 0 \<rparr>,
         \<lparr> h_text = ustr ''Theorie'', h_level = 1, h_number = None, h_para_index = 1 \<rparr>,
         \<lparr> h_text = ustr ''Methode'', h_level = 1, h_number = Some (ustr ''2''),
           h_para_index = 2 \<rparr>,
         \<lparr> h_text = ustr ''Ergebnisse'', h_level = 1, h_number = Some (ustr ''3''),
           h_para_index = 3 \<rparr>,
         \<lparr> h_text = ustr ''Diskussion'', h_level = 1, h_number = Some (ustr ''4''),
           h_para_index = 4 \<rparr>,
         \<lparr> h_text = ustr ''Fazit'', h_level = 1, h_number = Some (ustr ''5''),
           h_para_index = 5 \<rparr>,
         \<lparr> h_text = ustr ''Literaturverzeichnis'', h_level = 1, h_number = Some (ustr ''6''),
           h_para_index = 6 \<rparr>])"
proof (rule extraction_without_toc)
  show "find_title_index latin1 (map ustr seven_chapters) 0 = None"
    by (simp add: seven_chapters_def ns_c1 ns_c2 ns_c3 ns_c4 ns_c5 ns_c6 ns_theo)
  show "classify_loop latin1 0 (map (\<lambda>s. (plain_paragraph s, False)) seven_chapters)
          ([], [], replicate 10 0)
        = (map ustr seven_chapters,
           [\<lparr> h_text = ustr ''Einleitung'', h_level = 1, h_number = Some (ustr ''1''),
              h_para_index = 0 \<rparr>,
            \<lparr> h_text = ustr ''Theorie'', h_level = 1, h_number = None, h_para_index = 1 \<rparr>,
            \<lparr> h_text = ustr ''Methode'', h_level = 1, h_number = Some (ustr ''2''),
              h_para_index = 2 \<rparr>,
            \<lparr> h_text = ustr ''Ergebnisse'', h_level = 1, h_number = Some (ustr ''3''),
              h_para_index = 3 \<rparr>,
            \<lparr> h_text = ustr ''Diskussion'', h_level = 1, h_number = Some (ustr ''4''),
              h_para_index = 4 \<rparr>,
            \<lparr> h_text = ustr ''Fazit'', h_level = 1, h_number = Some (ustr ''5''),
              h_para_index = 5 \<rparr>,
            \<lparr> h_text = ustr ''Literaturverzeichnis'', h_level = 1, h_number = Some (ustr ''6''),
              h_para_index = 6 \<rparr>],
           replicate 10 0)"
    by (simp add: seven_chapters_def cl_c1 cl_c2 cl_c3 cl_c4 cl_c5 cl_c6 cl_theo)
qed

lemma section_keys_extract:
  "section_keys (extract_docx U name tables root)
     = map fst (build_sections U (fst (extract_paragraphs_and_headings_from_xml U root))
                               (snd (extract_paragraphs_and_headings_from_xml U root)))"
  by (simp add: section_keys_def extract_docx_def split: prod.splits)

lemmas build_eval = build_sections_def section_key_of_def Let_def

lemma keys_six_chapters:
  "section_keys (thesis six_chapters)
     = [ustr ''einleitung'', ustr ''methode'', ustr ''ergebnisse'', ustr ''diskussion'',
        ustr ''fazit'', ustr ''literatur'']"
  unfolding thesis_def section_keys_extract extract_six_chapters
  by (simp add: build_eval key_c1 key_c2 key_c3 key_c4 key_c5 key_c6)

lemma keys_seven_chapters:
  "section_keys (thesis seven_chapters)
     = [ustr ''einleitung'', ustr ''theorie'', ustr ''methode'', ustr ''ergebnisse'',
        ustr ''diskussion'', ustr ''fazit'', ustr ''literatur'']"
  unfolding thesis_def section_keys_extract extract_seven_chapters
  by (simp add: build_eval key_c1 key_c2 key_c3 key_c4 key_c5 key_c6 skey_theo)

text \<open>
  Claim C1. When the section map of a document has the keys einleitung, methode,
  ergebnisse, diskussion, fazit and literatur and not theorie, the list of missing
  chapters is exactly [theorie] and \<open>RequiredChaptersRule.run\<close> returns one finding, of
  severity error, whose message names theorie. When all seven required keys are there,
  nothing is missing and it returns one finding of severity info.
\<close>

theorem required_chapters_rule:
  "({ustr ''einleitung'', ustr ''methode'', ustr ''ergebnisse'', ustr ''diskussion'',
     ustr ''fazit'', ustr ''literatur''} \<subseteq> set (section_keys doc) \<and>
    ustr ''theorie'' \<notin> set (section_keys doc) \<longrightarrow>
      missing_chapters doc = [ustr ''theorie''] \<and>
      map severity (RequiredChaptersRule_run doc ai) = [ustr ''error''] \<and>
      map message (RequiredChaptersRule_run doc ai)
        = [ustr ''Fehlende Pflichtkapitel: theorie'']) \<and>
   (set REQUIRED \<subseteq> set (section_keys doc) \<longrightarrow>
      missing_chapters doc = [] \<and>
      map severity (RequiredChaptersRule_run doc ai) = [ustr ''info''])"
proof (intro conjI impI)
  assume a: "{ustr ''einleitung'', ustr ''methode'', ustr ''ergebnisse'', ustr ''diskussion'',
     ustr ''fazit'', ustr ''literatur''} \<subseteq> set (section_keys doc) \<and>
    ustr ''theorie'' \<notin> set (section_keys doc)"
  then show m: "missing_chapters doc = [ustr ''theorie'']"
    by (simp add: missing_chapters_def REQUIRED_def)
  show "map severity (RequiredChaptersRule_run doc ai) = [ustr ''error'']"
    by (simp add: RequiredChaptersRule_run_def m Let_def)
  show "map message (RequiredChaptersRule_run doc ai) = [ustr ''Fehlende Pflichtkapitel: theorie'']"
    by (simp add: RequiredChaptersRule_run_def m Let_def ustr_def)
next
  assume a: "set REQUIRED \<subseteq> set (section_keys doc)"
  then show m: "missing_chapters doc = []"
    by (auto simp add: missing_chapters_def filter_empty_conv)
  show "map severity (RequiredChaptersRule_run doc ai) = [ustr ''info'']"
    by (simp add: RequiredChaptersRule_run_def m Let_def)
qed

text \<open>
  The scenario of the claim, from the body to the finding: the document with the six
  paragraphs "1 Einleitung", "2 Methode", "3 Ergebnisse", "4 Diskussion", "5 Fazit",
  "6 Literaturverzeichnis" has the six keys and misses theorie; with a paragraph
  "Theorie" after the first it has all seven.
\<close>

theorem required_chapters_rule_witness:
  "section_keys (thesis six_chapters)
     = [ustr ''einleitung'', ustr ''methode'', ustr ''ergebnisse'', ustr ''diskussion'',
        ustr ''fazit'', ustr ''literatur''] \<and>
   missing_chapters (thesis six_chapters) = [ustr ''theorie''] \<and>
   map severity (RequiredChaptersRule_run (thesis six_chapters) None) = [ustr ''error''] \<and>
   map message (RequiredChaptersRule_run (thesis six_chapters) None)
     = [ustr ''Fehlende Pflichtkapitel: theorie''] \<and>
   set REQUIRED \<subseteq> set (section_keys (thesis seven_chapters)) \<and>
   map severity (RequiredChaptersRule_run (thesis seven_chapters) None) = [ustr ''info'']"
proof -
  have six: "{ustr ''einleitung'', ustr ''methode'', ustr ''ergebnisse'', ustr ''diskussion'',
       ustr ''fazit'', ustr ''literatur''} \<subseteq> set (section_keys (thesis six_chapters)) \<and>
      ustr ''theorie'' \<notin> set (section_keys (thesis six_chapters))"
    by (simp add: keys_six_chapters)
  have seven: "set REQUIRED \<subseteq> set (section_keys (thesis seven_chapters))"
    by (simp add: keys_seven_chapters REQUIRED_def)
  from six seven keys_six_chapters
    required_chapters_rule[of "thesis six_chapters" None]
    required_chapters_rule[of "thesis seven_chapters" None]
  show ?thesis by blast
qed

section \<open>One section per key\<close>

lemma build_loop_keeps:
  "set acc \<subseteq> set (build_loop U ps acc hks)"
proof (induction hks arbitrary: acc)
  case Nil
  then show ?case by simp
next
  case (Cons hk hks)
  obtain h k where hk: "hk = (h, k)" by (cases hk)
  show ?case
    using Cons.IH[of acc] Cons.IH[of "acc @ [(the k, make_section U ps h (the k) hks)]"]
    by (auto simp add: hk split: option.splits)
qed

lemma build_loop_distinct:
  "distinct (map fst acc) \<Longrightarrow> distinct (map fst (build_loop U ps acc hks))"
proof (induction hks arbitrary: acc)
  case Nil
  then show ?case by simp
next
  case (Cons hk hks)
  obtain h k where hk: "hk = (h, k)" by (cases hk)
  show ?case
  proof (cases k)
    case None
    with Cons hk show ?thesis by simp
  next
    case (Some key)
    show ?thesis
    proof (cases "key = [] \<or> key \<in> fst ` set acc")
      case True
      with Cons hk Some show ?thesis by auto
    next
      case False
      then have "distinct (map fst (acc @ [(key, make_section U ps h key hks)]))"
        using Cons.prems by auto
      from Cons.IH[OF this] False hk Some show ?thesis by simp
    qed
  qed
qed

lemma build_loop_entries:
  "(k, sec) \<in> set (build_loop U ps acc hks) \<Longrightarrow>
   (k, sec) \<in> set acc \<or>
   (k \<notin> fst ` set acc \<and> k \<noteq> [] \<and>
    (\<exists>pre h post. hks = pre @ (h, Some k) # post \<and> Some k \<notin> snd ` set pre \<and>
                   sec = make_section U ps h k post))"
proof (induction hks arbitrary: acc)
  case Nil
  then show ?case by simp
next
  case (Cons hk hks)
  obtain h0 k0 where hk: "hk = (h0, k0)" by (cases hk)
  have skip: ?case
    if run: "build_loop U ps acc (hk # hks) = build_loop U ps acc hks"
    and other: "k \<notin> fst ` set acc \<Longrightarrow> k \<noteq> [] \<Longrightarrow> k0 \<noteq> Some k"
  proof -
    from Cons.prems run have "(k, sec) \<in> set (build_loop U ps acc hks)" by simp
    from Cons.IH[OF this] show ?thesis
    proof
      assume "(k, sec) \<in> set acc" then show ?thesis by simp
    next
      assume a: "k \<notin> fst ` set acc \<and> k \<noteq> [] \<and>
        (\<exists>pre h post. hks = pre @ (h, Some k) # post \<and> Some k \<notin> snd ` set pre \<and>
                   sec = make_section U ps h k post)"
      then obtain pre h post where s: "hks = pre @ (h, Some k) # post" "Some k \<notin> snd ` set pre"
        "sec = make_section U ps h k post" by blast
      from a other have "k0 \<noteq> Some k" by simp
      with s hk have "hk # hks = (hk # pre) @ (h, Some k) # post \<and> Some k \<notin> snd ` set (hk # pre)
          \<and> sec = make_section U ps h k post"
        by auto
      with a show ?thesis by blast
    qed
  qed
  show ?case
  proof (cases k0)
    case None
    show ?thesis by (rule skip) (simp_all add: hk None)
  next
    case (Some key)
    show ?thesis
    proof (cases "key = [] \<or> key \<in> fst ` set acc")
      case True
      show ?thesis
        by (rule skip) (use True in \<open>auto simp add: hk Some\<close>)
    next
      case False
      let ?acc = "acc @ [(key, make_section U ps h0 key hks)]"
      from Cons.prems False have "(k, sec) \<in> set (build_loop U ps ?acc hks)"
        by (simp add: hk Some)
      from Cons.IH[OF this] show ?thesis
      proof
        assume "(k, sec) \<in> set ?acc"
        then consider "(k, sec) \<in> set acc" | "k = key" "sec = make_section U ps h0 key hks"
          by auto
        then show ?thesis
        proof cases
          case 1 then show ?thesis by simp
        next
          case 2
          have "hk # hks = [] @ (h0, Some k) # hks \<and> Some k \<notin> snd ` set []
                \<and> sec = make_section U ps h0 k hks"
            using 2 hk Some by simp
          with False 2 show ?thesis by blast
        qed
      next
        assume a: "k \<notin> fst ` set ?acc \<and> k \<noteq> [] \<and>
          (\<exists>pre h post. hks = pre @ (h, Some k) # post \<and> Some k \<notin> snd ` set pre \<and>
                   sec = make_section U ps h k post)"
        then obtain pre h post where s: "hks = pre @ (h, Some k) # post" "Some k \<notin> snd ` set pre"
          "sec = make_section U ps h k post" by blast
        from a have "k \<noteq> key" by auto
        with s hk Some have "hk # hks = (hk # pre) @ (h, Some k) # post \<and>
            Some k \<notin> snd ` set (hk # pre) \<and> sec = make_section U ps h k post"
          by auto
        then have ex: "\<exists>pre h post. hk # hks = pre @ (h, Some k) # post \<and>
            Some k \<notin> snd ` set pre \<and> sec = make_section U ps h k post"
          by blast
        from a have "k \<notin> fst ` set acc" "k \<noteq> []" by auto
        with ex show ?thesis by blast
      qed
    qed
  qed
qed

lemma build_loop_complete:
  "(h, Some k) \<in> set hks \<Longrightarrow> k \<noteq> [] \<Longrightarrow> k \<in> fst ` set (build_loop U ps acc hks)"
proof (induction hks arbitrary: acc)
  case Nil
  then show ?case by simp
next
  case (Cons hk hks)
  obtain h0 k0 where hk: "hk = (h0, k0)" by (cases hk)
  show ?case
  proof (cases "(h, Some k) = hk")
    case True
    then have k0: "k0 = Some k" using hk by simp
    show ?thesis
    proof (cases "k \<in> fst ` set acc")
      case True
      with build_loop_keeps[of acc U ps "hk # hks"] show ?thesis by auto
    next
      case False
      have "(k, make_section U ps h0 k hks) \<in> set (acc @ [(k, make_section U ps h0 k hks)])"
        by simp
      with build_loop_keeps[of "acc @ [(k, make_section U ps h0 k hks)]" U ps hks]
      have "(k, make_section U ps h0 k hks) \<in> set (build_loop U ps (acc @ [(k, make_section U ps h0 k hks)]) hks)"
        by blast
      with False Cons.prems hk k0 show ?thesis by force
    qed
  next
    case False
    with Cons.prems have m: "(h, Some k) \<in> set hks" by auto
    show ?thesis
      using Cons.IH[OF m Cons.prems(2), of acc]
            Cons.IH[OF m Cons.prems(2), of "acc @ [(the k0, make_section U ps h0 (the k0) hks)]"]
      by (auto simp add: hk split: option.splits)
  qed
qed

lemma make_section_fields:
  "s_key (make_section U ps h k later) = k"
  "s_title (make_section U ps h k later) = h_text h"
  "s_start_para (make_section U ps h k later) = h_para_index h + 1"
  by (simp_all add: make_section_def Let_def)

lemma sections_first_heading:
  assumes "(k, sec) \<in> set (build_sections U ps hs)"
  shows "\<exists>h \<in> set hs. section_key_of U h = Some k \<and> s_key sec = k \<and> s_title sec = h_text h \<and>
           s_start_para sec = h_para_index h + 1 \<and>
           (\<forall>h' \<in> set hs. section_key_of U h' = Some k \<longrightarrow> h_para_index h \<le> h_para_index h')"
proof -
  let ?hs = "sort_key h_para_index hs"
  let ?hks = "zip ?hs (map (section_key_of U) ?hs)"
  have hks: "?hks = map (\<lambda>h. (h, section_key_of U h)) ?hs"
    by (simp add: zip_map2 zip_same_conv_map)
  from assms have "(k, sec) \<in> set (build_loop U ps [] ?hks)"
    by (simp add: build_sections_def Let_def)
  from build_loop_entries[OF this] obtain pre h post where
    s: "?hks = pre @ (h, Some k) # post" "Some k \<notin> snd ` set pre"
       "sec = make_section U ps h k post"
    by auto
  from s(1) hks have m: "map (\<lambda>h. (h, section_key_of U h)) ?hs = pre @ (h, Some k) # post"
    by simp
  then have fs: "?hs = map fst pre @ h # map fst post"
  proof -
    have "map fst (map (\<lambda>h. (h, section_key_of U h)) ?hs) = ?hs" by (simp add: comp_def)
    with m show ?thesis by (metis list.simps(9) map_append fst_conv)
  qed
  have "(h, Some k) \<in> set (map (\<lambda>h. (h, section_key_of U h)) ?hs)"
    using m by simp
  then have hk: "section_key_of U h = Some k" and hin: "h \<in> set hs"
    by auto
  have srt: "sorted (map h_para_index ?hs)" by simp
  have least: "h_para_index h \<le> h_para_index h'"
    if h': "h' \<in> set hs" "section_key_of U h' = Some k" for h'
  proof -
    from h' have "(h', Some k) \<in> set (map (\<lambda>h. (h, section_key_of U h)) ?hs)" by force
    with m have "(h', Some k) \<in> set pre \<or> h' = h \<or> (h', Some k) \<in> set post" by auto
    moreover have "(h', Some k) \<notin> set pre" using s(2) by force
    ultimately consider "h' = h" | "h' \<in> set (map fst post)" by force
    then show ?thesis
    proof cases
      case 1 then show ?thesis by simp
    next
      case 2
      from srt fs have "sorted (map h_para_index (map fst pre) @ h_para_index h # map h_para_index (map fst post))"
        by simp
      then have "\<forall>x \<in> set (map h_para_index (map fst post)). h_para_index h \<le> x"
        by (simp add: sorted_append)
      with 2 show ?thesis by auto
    qed
  qed
  from hin hk s(3) least show ?thesis
    by (intro bexI[of _ h]) (simp_all add: make_section_fields)
qed

lemma sections_distinct: "distinct (map fst (build_sections U ps hs))"
  by (simp add: build_sections_def Let_def build_loop_distinct)

lemma sections_complete:
  assumes "h \<in> set hs" "section_key_of U h = Some k" "k \<noteq> []"
  shows "k \<in> fst ` set (build_sections U ps hs)"
proof -
  let ?hs = "sort_key h_para_index hs"
  have "(h, Some k) \<in> set (zip ?hs (map (section_key_of U) ?hs))"
    using assms by (force simp add: zip_map2 zip_same_conv_map)
  from build_loop_complete[OF this assms(3)] show ?thesis
    by (simp add: build_sections_def Let_def)
qed


lemma extract_two_reference_lists:
  "extract_paragraphs_and_headings_from_xml latin1
       (document_of (map plain_paragraph two_reference_lists))
     = (map ustr two_reference_lists,
        [\<lparr> h_text = ustr ''Literaturverzeichnis'', h_level = 1, h_number = None,
           h_para_index = 0 \<rparr>,
         \<lparr> h_text = ustr ''Quellen'', h_level = 1, h_number = None, h_para_index = 2 \<rparr>])"
proof (rule extraction_without_toc)
  show "find_title_index latin1 (map ustr two_reference_lists) 0 = None"
    by (simp add: two_reference_lists_def ns_lit ns_qa ns_qn ns_qb)
  show "classify_loop latin1 0 (map (\<lambda>s. (plain_paragraph s, False)) two_reference_lists)
          ([], [], replicate 10 0)
        = (map ustr two_reference_lists,
           [\<lparr> h_text = ustr ''Literaturverzeichnis'', h_level = 1, h_number = None,
              h_para_index = 0 \<rparr>,
            \<lparr> h_text = ustr ''Quellen'', h_level = 1, h_number = None, h_para_index = 2 \<rparr>],
           replicate 10 0)"
    by (simp add: two_reference_lists_def cl_lit cl_qa cl_qn cl_qb)
qed

lemma first_reference_section:
  "make_section latin1 (map ustr two_reference_lists)
     \<lparr> h_text = ustr ''Literaturverzeichnis'', h_level = 1, h_number = None, h_para_index = 0 \<rparr>
     (ustr ''literatur'')
     [(\<lparr> h_text = ustr ''Quellen'', h_level = 1, h_number = None, h_para_index = 2 \<rparr>,
       Some (ustr ''literatur''))]
   = \<lparr> s_key = ustr ''literatur'', s_title = ustr ''Literaturverzeichnis'', s_start_para = 1,
       s_end_para = 1, s_text = ustr ''Quelle A'', s_word_count = 2 \<rparr>"
  by (simp add: make_section_def section_end_def truthy_def py_slice_def slice_bound_def
        two_reference_lists_def word_count_def Let_def eval_defs)

lemma sections_two_reference_lists:
  "d_sections (thesis two_reference_lists)
     = [(ustr ''literatur'',
         \<lparr> s_key = ustr ''literatur'', s_title = ustr ''Literaturverzeichnis'', s_start_para = 1,
           s_end_para = 1, s_text = ustr ''Quelle A'', s_word_count = 2 \<rparr>)]"
proof -
  have "d_sections (thesis two_reference_lists)
        = build_sections latin1 (map ustr two_reference_lists)
           [\<lparr> h_text = ustr ''Literaturverzeichnis'', h_level = 1, h_number = None,
              h_para_index = 0 \<rparr>,
            \<lparr> h_text = ustr ''Quellen'', h_level = 1, h_number = None, h_para_index = 2 \<rparr>]"
    by (simp add: thesis_def extract_docx_def extract_two_reference_lists split: prod.splits)
  also have "\<dots> = [(ustr ''literatur'',
         make_section latin1 (map ustr two_reference_lists)
           \<lparr> h_text = ustr ''Literaturverzeichnis'', h_level = 1, h_number = None,
              h_para_index = 0 \<rparr>
           (ustr ''literatur'')
           [(\<lparr> h_text = ustr ''Quellen'', h_level = 1, h_number = None, h_para_index = 2 \<rparr>,
             Some (ustr ''literatur''))])]"
    by (simp add: build_eval skey_lit skey_qn)
  finally show ?thesis by (simp only: first_reference_section)
qed

text \<open>
  Claim C4. For every paragraph list and heading list, the section map has each key at
  most once. Every entry comes from a heading that resolves to the key and has the
  smallest \<open>para_index\<close> among the headings that resolve to it: the key, the title and
  the start of the section are those of that heading. Every key that some heading
  resolves to has an entry. The document model keeps the heading list as the extractor
  returned it, whatever the section map took from it.
\<close>

theorem one_section_per_key:
  "distinct (map fst (build_sections U ps hs)) \<and>
   (\<forall>ks \<in> set (build_sections U ps hs).
      \<exists>h \<in> set hs. section_key_of U h = Some (fst ks) \<and> s_key (snd ks) = fst ks \<and>
        s_title (snd ks) = h_text h \<and> s_start_para (snd ks) = h_para_index h + 1 \<and>
        (\<forall>h' \<in> set hs. section_key_of U h' = Some (fst ks) \<longrightarrow>
                          h_para_index h \<le> h_para_index h')) \<and>
   (\<forall>h \<in> set hs. \<forall>k. section_key_of U h = Some k \<and> k \<noteq> [] \<longrightarrow>
                      k \<in> fst ` set (build_sections U ps hs)) \<and>
   d_headings (extract_docx U name tables root)
     = snd (extract_paragraphs_and_headings_from_xml U root) \<and>
   d_sections (extract_docx U name tables root)
     = build_sections U (fst (extract_paragraphs_and_headings_from_xml U root))
                        (snd (extract_paragraphs_and_headings_from_xml U root))"
proof -
  have first: "\<forall>ks \<in> set (build_sections U ps hs).
      \<exists>h \<in> set hs. section_key_of U h = Some (fst ks) \<and> s_key (snd ks) = fst ks \<and>
        s_title (snd ks) = h_text h \<and> s_start_para (snd ks) = h_para_index h + 1 \<and>
        (\<forall>h' \<in> set hs. section_key_of U h' = Some (fst ks) \<longrightarrow>
                          h_para_index h \<le> h_para_index h')"
  proof
    fix ks assume "ks \<in> set (build_sections U ps hs)"
    then have "(fst ks, snd ks) \<in> set (build_sections U ps hs)" by simp
    from sections_first_heading[OF this]
    show "\<exists>h \<in> set hs. section_key_of U h = Some (fst ks) \<and> s_key (snd ks) = fst ks \<and>
        s_title (snd ks) = h_text h \<and> s_start_para (snd ks) = h_para_index h + 1 \<and>
        (\<forall>h' \<in> set hs. section_key_of U h' = Some (fst ks) \<longrightarrow>
                          h_para_index h \<le> h_para_index h')" .
  qed
  have complete: "\<forall>h \<in> set hs. \<forall>k. section_key_of U h = Some k \<and> k \<noteq> [] \<longrightarrow>
                      k \<in> fst ` set (build_sections U ps hs)"
    using sections_complete by blast
  have kept: "d_headings (extract_docx U name tables root)
                = snd (extract_paragraphs_and_headings_from_xml U root)"
    "d_sections (extract_docx U name tables root)
       = build_sections U (fst (extract_paragraphs_and_headings_from_xml U root))
                          (snd (extract_paragraphs_and_headings_from_xml U root))"
    by (simp_all add: extract_docx_def split: prod.splits)
  from sections_distinct first complete kept show ?thesis by blast
qed

text \<open>
  A document with the paragraphs "Literaturverzeichnis", "Quelle A", "Quellen",
  "Quelle B": both headings resolve to literatur and both stay in the heading list; the
  one section is the one of the first heading and spans the paragraph between the two.
\<close>

theorem one_section_per_key_witness:
  "map h_text (d_headings (thesis two_reference_lists))
     = [ustr ''Literaturverzeichnis'', ustr ''Quellen''] \<and>
   map (section_key_of latin1) (d_headings (thesis two_reference_lists))
     = [Some (ustr ''literatur''), Some (ustr ''literatur'')] \<and>
   d_sections (thesis two_reference_lists)
     = [(ustr ''literatur'',
         \<lparr> s_key = ustr ''literatur'', s_title = ustr ''Literaturverzeichnis'', s_start_para = 1,
           s_end_para = 1, s_text = ustr ''Quelle A'', s_word_count = 2 \<rparr>)] \<and>
   distinct (map fst (d_sections (thesis two_reference_lists)))"
proof -
  let ?root = "document_of (map plain_paragraph two_reference_lists)"
  from one_section_per_key[of latin1 "fst (extract_paragraphs_and_headings_from_xml latin1 ?root)"
      "snd (extract_paragraphs_and_headings_from_xml latin1 ?root)" "ustr ''thesis.docx''" 0 ?root]
  have t: "distinct (map fst (d_sections (thesis two_reference_lists)))"
    "d_headings (thesis two_reference_lists)
       = snd (extract_paragraphs_and_headings_from_xml latin1 ?root)"
    by (simp_all add: thesis_def)
  from t(2) have h: "d_headings (thesis two_reference_lists)
      = [\<lparr> h_text = ustr ''Literaturverzeichnis'', h_level = 1, h_number = None,
           h_para_index = 0 \<rparr>,
         \<lparr> h_text = ustr ''Quellen'', h_level = 1, h_number = None, h_para_index = 2 \<rparr>]"
    by (simp add: extract_two_reference_lists)
  have "map (section_key_of latin1) (d_headings (thesis two_reference_lists))
     = [Some (ustr ''literatur''), Some (ustr ''literatur'')]"
    unfolding h by (simp add: section_key_of_def skey_lit skey_qn)
  moreover have "map h_text (d_headings (thesis two_reference_lists))
     = [ustr ''Literaturverzeichnis'', ustr ''Quellen'']"
    unfolding h by simp
  ultimately show ?thesis using t(1) sections_two_reference_lists by blast
qed

section \<open>The table-of-contents range\<close>

lemma find_title_index_None:
  "(find_title_index U ps i = None) = (\<forall>p \<in> set ps. \<not> toc_title U p)"
  by (induction ps arbitrary: i) (auto simp: toc_title_def)

lemma find_title_index_Some:
  "find_title_index U ps i = Some s \<Longrightarrow>
   i \<le> s \<and> s - i < length ps \<and> toc_title U (ps ! (s - i)) \<and> (\<forall>j < s - i. \<not> toc_title U (ps ! j))"
proof (induction ps arbitrary: i)
  case Nil
  then show ?case by simp
next
  case (Cons p ps)
  show ?case
  proof (cases "toc_title U p")
    case True
    with Cons.prems show ?thesis by (simp add: toc_title_def)
  next
    case False
    with Cons.prems have "find_title_index U ps (Suc i) = Some s" by (simp add: toc_title_def)
    from Cons.IH[OF this] have ih: "Suc i \<le> s" "s - Suc i < length ps"
      "toc_title U (ps ! (s - Suc i))" "\<forall>j < s - Suc i. \<not> toc_title U (ps ! j)" by auto
    then obtain d where d: "s - i = Suc d" "s - Suc i = d" by (cases "s - i") auto
    have "\<forall>j < s - i. \<not> toc_title U ((p # ps) ! j)"
    proof (intro allI impI)
      fix j assume "j < s - i"
      then show "\<not> toc_title U ((p # ps) ! j)"
        using False ih(4) d by (cases j) auto
    qed
    with ih d show ?thesis by simp
  qed
qed

lemma toc_scan_step:
  "toc_scan U ps M (j # js) = (if window_ends U ps M j then Some j else toc_scan U ps M js)"
  by (simp add: window_ends_def non_toc_def Let_def)

lemma toc_scan_None:
  "(toc_scan U ps M js = None) = (\<forall>j \<in> set js. \<not> window_ends U ps M j)"
  by (induction js) (simp_all add: toc_scan_step del: toc_scan.simps(2))

lemma toc_scan_Some:
  "toc_scan U ps M js = Some e \<Longrightarrow>
   \<exists>pre post. js = pre @ e # post \<and> window_ends U ps M e \<and> (\<forall>j \<in> set pre. \<not> window_ends U ps M j)"
proof (induction js)
  case Nil
  then show ?case by simp
next
  case (Cons j js)
  show ?case
  proof (cases "window_ends U ps M j")
    case True
    with Cons.prems have "e = j" by (simp add: toc_scan_step del: toc_scan.simps)
    with True have "j # js = [] @ e # js \<and> window_ends U ps M e \<and> (\<forall>j \<in> set []. \<not> window_ends U ps M j)"
      by simp
    then show ?thesis by blast
  next
    case False
    with Cons.prems have "toc_scan U ps M js = Some e" by (simp add: toc_scan_step del: toc_scan.simps)
    from Cons.IH[OF this] obtain pre post where
      "js = pre @ e # post" "window_ends U ps M e" "\<forall>j \<in> set pre. \<not> window_ends U ps M j" by blast
    with False have "j # js = (j # pre) @ e # post \<and> window_ends U ps M e \<and>
        (\<forall>j' \<in> set (j # pre). \<not> window_ends U ps M j')" by simp
    then show ?thesis by blast
  qed
qed

lemma upt_split:
  assumes "[a ..< b] = pre @ e # post"
  shows "a \<le> e \<and> e < b \<and> set pre = {a ..< e}"
proof -
  have len: "length pre < b - a" using arg_cong[OF assms, of length] by simp
  have e: "e = [a ..< b] ! length pre" using assms by simp
  with len have ee: "e = a + length pre" by simp
  have "pre = take (length pre) [a ..< b]" using assms by simp
  also have "\<dots> = [a ..< a + length pre]" using len by (simp add: take_upt)
  finally have "set pre = {a ..< e}" using ee by (metis atLeastLessThan_upt)
  with ee len show ?thesis by simp
qed

lemma slice_nat_nth:
  assumes "b \<le> length ps"
  shows "slice_nat ps a b = map (\<lambda>i. ps ! i) [a ..< b]"
  unfolding slice_nat_def
proof (rule nth_equalityI)
  show "length (take (b - a) (drop a ps)) = length (map (\<lambda>i. ps ! i) [a ..< b])"
    using assms by simp
next
  fix i assume "i < length (take (b - a) (drop a ps))"
  then have i: "i < b - a" by simp
  then show "take (b - a) (drop a ps) ! i = map (\<lambda>i. ps ! i) [a ..< b] ! i"
    using assms by (simp add: nth_map_upt)
qed

lemma toc_window_indices:
  assumes "M \<le> length ps"
  shows "toc_window U ps M j =
         filter (\<lambda>x. normalize_simple U x \<noteq> []) (map (\<lambda>i. ps ! i) [j ..< min M (j + 8)])"
proof -
  have "min M (j + 8) \<le> length ps" using assms by simp
  from slice_nat_nth[OF this] show ?thesis by (simp add: toc_window_def)
qed

lemma ustr_empty [simp]: "ustr [] = []"
  by (simp add: ustr_def)

lemmas toc_eval = find_toc_range_def toc_window_def non_toc_def slice_nat_def
  ns_inh ns_vorwort ns_empty toc_inh toc_vorwort

lemma range_sparse_example: "find_toc_range latin1 (map ustr sparse_example) = Some (0, 17)"
  by (simp add: sparse_example_def toc_eval)

lemma range_short_example: "find_toc_range latin1 (map ustr short_example) = Some (0, 1)"
  by (simp add: short_example_def toc_eval)

text \<open>
  Claim C7 as worded fails when empty paragraphs stand between the lines: after the
  title of \<open>sparse_example\<close> come eight lines that do not look like the TOC, each
  followed by an empty paragraph. The eight non-empty paragraphs from index 1 hold
  eight such lines, so a scan in windows of eight non-empty paragraphs ends the range
  at 1. The code cuts eight paragraphs, drops the four empty ones, finds four lines in
  every window and returns the fallback end, 17.
\<close>

theorem toc_window_counterexample:
  "find_toc_range latin1 (map ustr sparse_example) = Some (0, 17) \<and>
   end_by_eight_nonempty latin1 (map ustr sparse_example) 0 = 1"
proof -
  have "end_by_eight_nonempty latin1 (map ustr sparse_example) 0 = 1"
    by (simp add: end_by_eight_nonempty_def eight_nonempty_def sparse_example_def non_toc_def
          slice_nat_def ns_inh ns_vorwort ns_empty toc_vorwort Let_def)
  with range_sparse_example show ?thesis by simp
qed

text \<open>
  Claim C7, amended in the window only. There is no range exactly when no paragraph
  normalises to "inhaltsverzeichnis". Otherwise the range starts at the first such
  paragraph \<open>s\<close>; with the cap \<open>M = min(len, s + 500)\<close>, it ends at the first \<open>j\<close> with
  \<open>s < j < M\<close> whose window has five or more lines that do not look like the TOC, and
  at \<open>min(len, s + 250)\<close> when there is no such \<open>j\<close>. The window at \<open>j\<close> is made of
  the paragraphs with the indices from \<open>j\<close> up to \<open>min(M, j + 8)\<close>, without those
  that normalise to the empty string: eight paragraphs at most, of which the empty ones
  are dropped and not replaced.
\<close>

theorem toc_range_characterised:
  "((find_toc_range U ps = None) = (\<forall>p \<in> set ps. \<not> toc_title U p)) \<and>
   (\<forall>s e. find_toc_range U ps = Some (s, e) \<longrightarrow>
      s < length ps \<and> toc_title U (ps ! s) \<and> (\<forall>i < s. \<not> toc_title U (ps ! i)) \<and>
      ((s < e \<and> e < min (length ps) (s + 500) \<and> window_ends U ps (min (length ps) (s + 500)) e \<and>
        (\<forall>j. s < j \<and> j < e \<longrightarrow> \<not> window_ends U ps (min (length ps) (s + 500)) j))
       \<or> ((\<forall>j. s < j \<and> j < min (length ps) (s + 500) \<longrightarrow>
                \<not> window_ends U ps (min (length ps) (s + 500)) j) \<and>
           e = min (length ps) (s + 250)))) \<and>
   (\<forall>M j. M \<le> length ps \<longrightarrow>
      toc_window U ps M j =
        filter (\<lambda>x. normalize_simple U x \<noteq> []) (map (\<lambda>i. ps ! i) [j ..< min M (j + 8)]))"
proof -
  have none: "(find_toc_range U ps = None) = (\<forall>p \<in> set ps. \<not> toc_title U p)"
    using find_title_index_None[of U ps 0]
    by (auto simp add: find_toc_range_def Let_def split: option.splits)
  have some: "s < length ps \<and> toc_title U (ps ! s) \<and> (\<forall>i < s. \<not> toc_title U (ps ! i)) \<and>
      ((s < e \<and> e < min (length ps) (s + 500) \<and> window_ends U ps (min (length ps) (s + 500)) e \<and>
        (\<forall>j. s < j \<and> j < e \<longrightarrow> \<not> window_ends U ps (min (length ps) (s + 500)) j))
       \<or> ((\<forall>j. s < j \<and> j < min (length ps) (s + 500) \<longrightarrow>
                \<not> window_ends U ps (min (length ps) (s + 500)) j) \<and>
           e = min (length ps) (s + 250)))"
    if r: "find_toc_range U ps = Some (s, e)" for s e
  proof (intro conjI)
    let ?M = "min (length ps) (s + 500)"
  from r obtain s' where s': "find_title_index U ps 0 = Some s'"
    by (auto simp add: find_toc_range_def split: option.splits)
  with r have ss: "s' = s"
    by (auto simp add: find_toc_range_def Let_def split: option.splits)
  from find_title_index_Some[OF s'] ss
  show "s < length ps" "toc_title U (ps ! s)" "\<forall>i < s. \<not> toc_title U (ps ! i)" by auto
  show "(s < e \<and> e < ?M \<and> window_ends U ps ?M e \<and>
        (\<forall>j. s < j \<and> j < e \<longrightarrow> \<not> window_ends U ps ?M j))
       \<or> ((\<forall>j. s < j \<and> j < ?M \<longrightarrow> \<not> window_ends U ps ?M j) \<and> e = min (length ps) (s + 250))"
  proof (cases "toc_scan U ps ?M [s + 1 ..< ?M]")
    case None
    with r s' ss have e: "e = min (length ps) (s + 250)"
      by (simp add: find_toc_range_def Let_def)
    from None have "\<forall>j \<in> set [s + 1 ..< ?M]. \<not> window_ends U ps ?M j"
      by (simp only: toc_scan_None)
    then have "\<forall>j. s < j \<and> j < ?M \<longrightarrow> \<not> window_ends U ps ?M j" by auto
    with e show ?thesis by blast
  next
    case (Some j)
    with r s' ss have e: "e = j" by (simp add: find_toc_range_def Let_def)
    from toc_scan_Some[OF Some] obtain pre post where
      sp: "[s + 1 ..< ?M] = pre @ j # post" "window_ends U ps ?M j"
          "\<forall>j' \<in> set pre. \<not> window_ends U ps ?M j'" by blast
    from upt_split[OF sp(1)] have "s + 1 \<le> j" "j < ?M" "set pre = {s + 1 ..< j}" by auto
    with sp e have "s < e \<and> e < ?M \<and> window_ends U ps ?M e \<and>
        (\<forall>j. s < j \<and> j < e \<longrightarrow> \<not> window_ends U ps ?M j)" by auto
    then show ?thesis by blast
  qed
  qed
  have win: "\<forall>M j. M \<le> length ps \<longrightarrow>
      toc_window U ps M j =
        filter (\<lambda>x. normalize_simple U x \<noteq> []) (map (\<lambda>i. ps ! i) [j ..< min M (j + 8)])"
    using toc_window_indices by blast
  from none some win show ?thesis by blast
qed


text \<open>
  The three cases on documents: the example of claim C6, where no window ends the range
  and it runs to the end of the seven paragraphs; a title followed by five lines of
  text, where the window at 1 ends it; and the six chapter headings, with no title.
\<close>

theorem toc_range_characterised_witness:
  "find_toc_range latin1 (map ustr toc_example) = Some (0, 7) \<and>
   toc_title latin1 (map ustr toc_example ! 0) \<and>
   7 = min (length (map ustr toc_example)) (0 + 250) \<and>
   find_toc_range latin1 (map ustr short_example) = Some (0, 1) \<and>
   window_ends latin1 (map ustr short_example) (min (length (map ustr short_example)) (0 + 500)) 1 \<and>
   find_toc_range latin1 (map ustr six_chapters) = None"
proof -
  have none: "find_toc_range latin1 (map ustr six_chapters) = None"
    by (simp add: find_toc_range_def six_chapters_def ns_c1 ns_c2 ns_c3 ns_c4 ns_c5 ns_c6)
  have len: "length toc_example = 7" "length short_example = 6"
    by (simp_all add: toc_example_def short_example_def)
  from toc_range_characterised[of latin1 "map ustr toc_example"] range_toc_example
  have a: "toc_title latin1 (map ustr toc_example ! 0)" by blast
  from toc_range_characterised[of latin1 "map ustr short_example"] range_short_example
  have "(0 < (1::nat) \<and> 1 < min (length (map ustr short_example)) (0 + 500) \<and>
         window_ends latin1 (map ustr short_example)
           (min (length (map ustr short_example)) (0 + 500)) 1 \<and>
         (\<forall>j. 0 < j \<and> j < 1 \<longrightarrow> \<not> window_ends latin1 (map ustr short_example)
              (min (length (map ustr short_example)) (0 + 500)) j))
       \<or> ((\<forall>j. 0 < j \<and> j < min (length (map ustr short_example)) (0 + 500) \<longrightarrow>
                \<not> window_ends latin1 (map ustr short_example)
                    (min (length (map ustr short_example)) (0 + 500)) j) \<and>
           (1::nat) = min (length (map ustr short_example)) (0 + 250))"
    by blast
  then have b: "window_ends latin1 (map ustr short_example)
                  (min (length (map ustr short_example)) (0 + 500)) 1"
    by (simp add: len)
  from a b none range_toc_example range_short_example len show ?thesis by simp
qed

section \<open>The body walk\<close>

lemma nodes_below_ancestors:
  "na \<in> set (nodes_below anc e) \<Longrightarrow> set anc \<subseteq> set (snd na)"
proof (induction e arbitrary: anc na)
  case (Element t a x cs)
  from Element.prems obtain c where c: "c \<in> set cs"
    and na: "na = (c, anc) \<or> na \<in> set (nodes_below (anc @ [localname c]) c)"
    by auto
  from na show ?case
  proof
    assume "na = (c, anc)" then show ?thesis by simp
  next
    assume "na \<in> set (nodes_below (anc @ [localname c]) c)"
    from Element.IH[OF c this] show ?thesis by simp
  qed
qed

lemma no_yield_inside_paragraph:
  assumes "ustr ''p'' \<in> set anc"
  shows "filter yielded (nodes_below anc e) = []"
proof -
  have "\<forall>na \<in> set (nodes_below anc e). \<not> yielded na"
    using nodes_below_ancestors[of _ anc e] assms by (auto simp: yielded_def)
  then show ?thesis by (simp add: filter_empty_conv)
qed

lemma tbl_not_p: "ustr ''tbl'' \<noteq> ustr ''p''"
  by (simp add: ustr_def)

lemma walk_nodes_below:
  "ustr ''p'' \<notin> set anc \<Longrightarrow>
   walk e (ustr ''tbl'' \<in> set anc) = map flagged (filter yielded (nodes_below anc e))"
proof (induction e arbitrary: anc)
  case (Element t a x cs)
  have step: "\<And>c. c \<in> set cs \<Longrightarrow>
      (if localname c = ustr ''tbl'' then walk c True
       else if localname c = ustr ''p'' then [(c, ustr ''tbl'' \<in> set anc)]
       else walk c (ustr ''tbl'' \<in> set anc))
      = map flagged (filter yielded ((c, anc) # nodes_below (anc @ [localname c]) c))"
  proof -
    fix c assume c: "c \<in> set cs"
    show "(if localname c = ustr ''tbl'' then walk c True
       else if localname c = ustr ''p'' then [(c, ustr ''tbl'' \<in> set anc)]
       else walk c (ustr ''tbl'' \<in> set anc))
      = map flagged (filter yielded ((c, anc) # nodes_below (anc @ [localname c]) c))"
    proof (cases "localname c = ustr ''tbl''")
      case True
      have "ustr ''p'' \<notin> set (anc @ [localname c])"
        using Element.prems True tbl_not_p by auto
      moreover have "\<not> yielded (c, anc)"
        using True tbl_not_p by (simp add: yielded_def)
      ultimately show ?thesis
        using Element.IH[OF c, of "anc @ [localname c]"] True by simp
    next
      case False
      show ?thesis
      proof (cases "localname c = ustr ''p''")
        case True
        have "filter yielded (nodes_below (anc @ [localname c]) c) = []"
          by (rule no_yield_inside_paragraph) (simp add: True)
        moreover have "yielded (c, anc)" "flagged (c, anc) = (c, ustr ''tbl'' \<in> set anc)"
          using True Element.prems by (simp_all add: yielded_def flagged_def)
        ultimately show ?thesis
          using True False by simp
      next
        case nP: False
        have "ustr ''p'' \<notin> set (anc @ [localname c])"
          using Element.prems nP by auto
        moreover have "\<not> yielded (c, anc)"
          using nP by (simp add: yielded_def)
        ultimately show ?thesis
          using Element.IH[OF c, of "anc @ [localname c]"] False nP by simp
      qed
    qed
  qed
  have "walk (Element t a x cs) (ustr ''tbl'' \<in> set anc)
        = concat (map (\<lambda>c. map flagged (filter yielded ((c, anc) # nodes_below (anc @ [localname c]) c))) cs)"
    using step by (simp cong: map_cong)
  also have "\<dots> = map flagged (filter yielded (nodes_below anc (Element t a x cs)))"
    by (simp add: map_concat filter_concat comp_def)
  finally show ?case .
qed

lemma walk_body_characterised:
  "walk_body_paragraphs body = map flagged (filter yielded (nodes_below [] body))"
  using walk_nodes_below[of "[]" body] by (simp add: walk_body_paragraphs_def)

lemma classify_paragraphs:
  "fst (classify U idx pb (ps, hs, cs)) = ps @ [p_text U (fst pb)]"
  by (cases pb) (simp add: classify_def Let_def split: prod.splits option.splits)

lemma classify_headings:
  "\<exists>new. fst (snd (classify U idx pb (ps, hs, cs))) = hs @ new \<and>
         (\<forall>h \<in> set new. h_para_index h = int idx \<and> \<not> snd pb)"
  by (cases pb) (auto simp add: classify_def Let_def split: prod.splits option.splits)

lemma loop_paragraphs:
  "fst (classify_loop U idx w (ps, hs, cs)) = ps @ map (\<lambda>pb. p_text U (fst pb)) w"
proof (induction w arbitrary: idx ps hs cs)
  case Nil
  then show ?case by simp
next
  case (Cons pb w)
  obtain ps' hs' cs' where st: "classify U idx pb (ps, hs, cs) = (ps', hs', cs')"
    by (cases "classify U idx pb (ps, hs, cs)") auto
  from classify_paragraphs[of U idx pb ps hs cs] st have "ps' = ps @ [p_text U (fst pb)]" by simp
  with Cons.IH[of "Suc idx" ps' hs' cs'] st show ?case by simp
qed

lemma loop_headings:
  "\<exists>new. fst (snd (classify_loop U idx w (ps, hs, cs))) = hs @ new \<and>
         (\<forall>h \<in> set new. \<exists>i < length w. h_para_index h = int (idx + i) \<and> \<not> snd (w ! i))"
proof (induction w arbitrary: idx ps hs cs)
  case Nil
  then show ?case by simp
next
  case (Cons pb w)
  obtain ps' hs' cs' where st: "classify U idx pb (ps, hs, cs) = (ps', hs', cs')"
    by (cases "classify U idx pb (ps, hs, cs)") auto
  from classify_headings[of U idx pb ps hs cs] st obtain new1 where
    n1: "hs' = hs @ new1" "\<forall>h \<in> set new1. h_para_index h = int idx \<and> \<not> snd pb"
    by auto
  from Cons.IH[of "Suc idx" ps' hs' cs'] obtain new2 where
    n2: "fst (snd (classify_loop U (Suc idx) w (ps', hs', cs'))) = hs' @ new2"
        "\<forall>h \<in> set new2. \<exists>i < length w. h_para_index h = int (Suc idx + i) \<and> \<not> snd (w ! i)"
    by blast
  have "\<forall>h \<in> set (new1 @ new2). \<exists>i < length (pb # w). h_para_index h = int (idx + i) \<and> \<not> snd ((pb # w) ! i)"
  proof
    fix h assume "h \<in> set (new1 @ new2)"
    then consider "h \<in> set new1" | "h \<in> set new2" by auto
    then show "\<exists>i < length (pb # w). h_para_index h = int (idx + i) \<and> \<not> snd ((pb # w) ! i)"
    proof cases
      case 1
      with n1 have "h_para_index h = int (idx + 0) \<and> \<not> snd ((pb # w) ! 0)" by simp
      then show ?thesis by (intro exI[of _ 0]) simp
    next
      case 2
      with n2 obtain i where "i < length w" "h_para_index h = int (Suc idx + i)" "\<not> snd (w ! i)"
        by blast
      then show ?thesis by (intro exI[of _ "Suc i"]) simp
    qed
  qed
  with n1 n2 st show ?case by (intro exI[of _ "new1 @ new2"]) simp
qed

lemma filter_toc_subset: "set (filter_toc U ps hs) \<subseteq> set hs"
  by (auto simp add: filter_toc_def split: option.splits)

lemma localname_t [simp]: "localname (Element (wname ''t'') a x cs) = ustr ''t''"
  by (simp add: localname_def wname_def w_ns_def ustr_def)

lemma walk_text_box: "walk_body_paragraphs text_box_body =
    [(Element (wname ''p'') [] None
        [Element (wname ''r'') [] None
           [Element (wname ''txbxContent'') [] None [plain_paragraph ''Box'']]], False)]"
  by (simp add: walk_body_paragraphs_def text_box_body_def)

lemma all_paragraphs_text_box: "all_paragraphs text_box_body =
    [(Element (wname ''p'') [] None
        [Element (wname ''r'') [] None
           [Element (wname ''txbxContent'') [] None [plain_paragraph ''Box'']]], False),
     (plain_paragraph ''Box'', False)]"
  by (simp add: all_paragraphs_def text_box_body_def flagged_def plain_paragraph_def run_of_def)

lemma walk_table_body: "walk_body_paragraphs table_body =
    [(plain_paragraph ''1 Einleitung'', False), (plain_paragraph ''2 Methode'', True),
     (plain_paragraph ''Text...'', False)]"
  by (simp add: walk_body_paragraphs_def table_body_def)

lemma find_table_body: "find_descendant (wname ''body'') table_document = Some table_body"
  by (simp add: find_descendant_def table_document_def table_body_def)

text \<open>
  Claim C8 as worded fails on a paragraph inside a paragraph, which is how a text box is
  stored: the walk yields a paragraph and does not look below it, so the paragraph of
  the box in \<open>text_box_body\<close> is not yielded. The body has two paragraph nodes, the
  walk yields one.
\<close>

theorem body_walk_counterexample:
  "length (all_paragraphs text_box_body) = 2 \<and>
   length (walk_body_paragraphs text_box_body) = 1 \<and>
   (plain_paragraph ''Box'', False) \<notin> set (walk_body_paragraphs text_box_body)"
  unfolding walk_text_box all_paragraphs_text_box by (simp add: plain_paragraph_def run_of_def)

text \<open>
  Claim C8, amended in the paragraphs that are yielded. The walk yields, in document
  order and once for each, the paragraph nodes of the body that have no paragraph among
  their ancestors, each with the flag that says whether a table is among its ancestors.
  When the document has a body, the paragraph sequence holds the text of every yielded
  paragraph, in that order, and every heading that is returned has the index of a
  yielded paragraph whose flag is false: a paragraph in a table gives its text and no
  heading.
\<close>

theorem body_walk_characterised:
  "walk_body_paragraphs body = map flagged (filter yielded (nodes_below [] body)) \<and>
   (find_descendant (wname ''body'') root = Some body \<longrightarrow>
      fst (extract_paragraphs_and_headings_from_xml U root)
        = map (\<lambda>pb. p_text U (fst pb)) (walk_body_paragraphs body) \<and>
      (\<forall>h \<in> set (snd (extract_paragraphs_and_headings_from_xml U root)).
         \<exists>i < length (walk_body_paragraphs body).
            h_para_index h = int i \<and> \<not> snd (walk_body_paragraphs body ! i)))"
proof (rule conjI)
  show "walk_body_paragraphs body = map flagged (filter yielded (nodes_below [] body))"
    by (rule walk_body_characterised)
next
  show "find_descendant (wname ''body'') root = Some body \<longrightarrow>
      fst (extract_paragraphs_and_headings_from_xml U root)
        = map (\<lambda>pb. p_text U (fst pb)) (walk_body_paragraphs body) \<and>
      (\<forall>h \<in> set (snd (extract_paragraphs_and_headings_from_xml U root)).
         \<exists>i < length (walk_body_paragraphs body).
            h_para_index h = int i \<and> \<not> snd (walk_body_paragraphs body ! i))"
  proof
    assume b: "find_descendant (wname ''body'') root = Some body"
    define w where "w = walk_body_paragraphs body"
    obtain ps hs cs where l: "classify_loop U 0 w ([], [], replicate 10 0) = (ps, hs, cs)"
      by (cases "classify_loop U 0 w ([], [], replicate 10 0)") auto
    have ex: "extract_paragraphs_and_headings_from_xml U root = (ps, filter_toc U ps hs)"
      using b l by (simp add: extract_paragraphs_and_headings_from_xml_def w_def)
    from loop_paragraphs[of U 0 w "[]" "[]" "replicate 10 0"] l
    have p: "ps = map (\<lambda>pb. p_text U (fst pb)) w" by simp
    from loop_headings[of U 0 w "[]" "[]" "replicate 10 0"] l
    have h: "\<forall>h \<in> set hs. \<exists>i < length w. h_para_index h = int i \<and> \<not> snd (w ! i)"
      by auto
    have "\<forall>h \<in> set (filter_toc U ps hs). \<exists>i < length w. h_para_index h = int i \<and> \<not> snd (w ! i)"
      using h filter_toc_subset[of U ps hs] by blast
    with p ex show "fst (extract_paragraphs_and_headings_from_xml U root)
        = map (\<lambda>pb. p_text U (fst pb)) (walk_body_paragraphs body) \<and>
      (\<forall>h \<in> set (snd (extract_paragraphs_and_headings_from_xml U root)).
         \<exists>i < length (walk_body_paragraphs body).
            h_para_index h = int i \<and> \<not> snd (walk_body_paragraphs body ! i))"
      by (simp add: w_def)
  qed
qed

text \<open>
  On a body with a numbered line, a table whose cell holds the numbered line
  "2 Methode", and a line of text: three paragraphs are yielded, the second with the
  flag; its text is the second entry of the paragraph sequence, and the one heading is
  that of the first line.
\<close>

theorem body_walk_characterised_witness:
  "find_descendant (wname ''body'') table_document = Some table_body \<and>
   map snd (walk_body_paragraphs table_body) = [False, True, False] \<and>
   fst (extract_paragraphs_and_headings_from_xml latin1 table_document)
     = [ustr ''1 Einleitung'', ustr ''2 Methode'', ustr ''Text...''] \<and>
   map h_para_index (snd (extract_paragraphs_and_headings_from_xml latin1 table_document)) = [0]"
proof -
  from body_walk_characterised[of table_body table_document latin1] find_table_body
  have "fst (extract_paragraphs_and_headings_from_xml latin1 table_document)
          = map (\<lambda>pb. p_text latin1 (fst pb)) (walk_body_paragraphs table_body)"
    by blast
  then have p: "fst (extract_paragraphs_and_headings_from_xml latin1 table_document)
          = [ustr ''1 Einleitung'', ustr ''2 Methode'', ustr ''Text...'']"
    by (simp add: walk_table_body pt_c1 pt_c2 pt_txt)
  have ne: "p_text latin1 (plain_paragraph ''2 Methode'') \<noteq> []"
    by (simp add: pt_c2)
  have l: "classify_loop latin1 0 (walk_body_paragraphs table_body) ([], [], replicate 10 0)
        = ([ustr ''1 Einleitung'', ustr ''2 Methode'', ustr ''Text...''],
           [\<lparr> h_text = ustr ''Einleitung'', h_level = 1, h_number = Some (ustr ''1''),
               h_para_index = 0 \<rparr>], replicate 10 0)"
    unfolding walk_table_body by (simp add: cl_c1 cl_table[OF ne] cl_txt pt_c2)
  have t: "find_toc_range latin1 [ustr ''1 Einleitung'', ustr ''2 Methode'', ustr ''Text...''] = None"
    by (simp add: find_toc_range_def ns_c1 ns_c2 ns_txt)
  have h: "snd (extract_paragraphs_and_headings_from_xml latin1 table_document)
        = [\<lparr> h_text = ustr ''Einleitung'', h_level = 1, h_number = Some (ustr ''1''),
               h_para_index = 0 \<rparr>]"
    by (simp add: extract_paragraphs_and_headings_from_xml_def find_table_body l filter_toc_def t)
  from p h find_table_body show ?thesis by (simp add: walk_table_body)
qed

section \<open>Resolving section keys\<close>

lemma exact_kw_normal:
  "keywords_normal U \<Longrightarrow> exact_kw U t (keywords_of k) \<Longrightarrow> t \<in> set (keywords_of k)"
  by (auto simp add: exact_kw_def keywords_normal_def list_ex_iff)

lemma prefix_kw_normal:
  "keywords_normal U \<Longrightarrow> prefix_kw U t (keywords_of k) \<Longrightarrow>
   \<exists>kw \<in> set (keywords_of k). startswith t (kw @ [32])"
  by (auto simp add: prefix_kw_def keywords_normal_def list_ex_iff Let_def)

lemma exact_strict_Some:
  "exact_strict U t = Some k \<Longrightarrow> k \<in> set (strict_iter U) \<and> exact_kw U t (keywords_of k)"
  by (auto simp add: exact_strict_def find_Some_iff)

lemma exact_rest_Some:
  "exact_rest U t = Some k \<Longrightarrow> k \<notin> STRICT_ONLY_KEYS \<and> exact_kw U t (keywords_of k)"
proof -
  assume "exact_rest U t = Some k"
  then obtain kws where f: "find (\<lambda>(k, kws). k \<notin> STRICT_ONLY_KEYS \<and> exact_kw U t kws) SECTION_KEYWORDS = Some (k, kws)"
    by (auto simp add: exact_rest_def)
  then have "(k, kws) \<in> set SECTION_KEYWORDS" "k \<notin> STRICT_ONLY_KEYS" "exact_kw U t kws"
    by (auto simp add: find_Some_iff in_set_conv_nth)
  with keywords_of_table show ?thesis by simp
qed

lemma prefix_key_Some:
  "prefix_key U t = Some k \<Longrightarrow> k \<in> set (prefix_iter U) \<and> prefix_kw U t (keywords_of k)"
  by (auto simp add: prefix_key_def find_Some_iff)

lemma prefix_not_strict: "k \<in> PREFIX_OK_KEYS \<Longrightarrow> k \<notin> STRICT_ONLY_KEYS"
  by (auto simp add: PREFIX_OK_KEYS_def STRICT_ONLY_KEYS_def)

lemma theorie_prefix_ok: "ustr ''theorie'' \<in> PREFIX_OK_KEYS"
  by (simp add: PREFIX_OK_KEYS_def)

lemma top_level_no_dots:
  assumes "\<not> isdigit U 46" "is_top_level U lvl num"
  shows "lvl = Some 1 \<or> (\<exists>n. num = Some n \<and> n \<noteq> [] \<and> 46 \<notin> set n)"
proof (cases "lvl = Some 1")
  case True
  then show ?thesis by simp
next
  case False
  with assms(2) obtain n where n: "num = Some n" "n \<noteq> []" "str_isdigit U n"
    by (auto simp add: is_top_level_def split: option.splits)
  from n(3) assms(1) have "46 \<notin> set n"
    by (auto simp add: str_isdigit_def list_all_iff)
  with n show ?thesis by simp
qed

lemma find_section_key_cases:
  assumes "find_section_key U title lvl num = Some k"
  shows "(exact_strict U (normalize_title U title) = Some k) \<or>
         (exact_rest U (normalize_title U title) = Some k) \<or>
         (is_top_level U lvl num \<and> prefix_key U (normalize_title U title) = Some k) \<or>
         (is_top_level U lvl num \<and> re_search U theory_re (normalize_title U title) \<noteq> None \<and>
            k = ustr ''theorie'')"
  using assms
  by (auto simp add: find_section_key_def Let_def split: if_splits option.splits)

lemma iterates_sets_latin1: "iterates_sets latin1"
  by (auto simp add: iterates_sets_def latin1_iter STRICT_ONLY_KEYS_def PREFIX_OK_KEYS_def)

lemma dot_no_digit_latin1: "\<not> isdigit latin1 46"
  by (simp add: eval_defs)

lemma st_motivation:
  "normalize_title latin1 (ustr ''Einleitung und Motivation'') = ustr ''einleitung und motivation''"
  by (simp add: normalize_title_def eval_defs)

lemma key_motivation:
  "find_section_key latin1 (ustr ''Einleitung und Motivation'') (Some 1) (Some (ustr ''1''))
     = Some (ustr ''einleitung'')"
  unfolding key_tables by (simp add: key_eval)

lemma key_motivation_sub:
  "find_section_key latin1 (ustr ''Einleitung und Motivation'') (Some 2) (Some (ustr ''1.1''))
     = None"
  unfolding key_tables by (simp add: key_eval)

lemma key_results_prefix:
  "find_section_key latin1 (ustr ''Ergebnisse und Diskussion'') (Some 1) (Some (ustr ''4''))
     = None"
  unfolding key_tables by (simp add: key_eval)

lemma keywords_einleitung:
  "keywords_of (ustr ''einleitung'') = [ustr ''einleitung'', ustr ''introduction'']"
  by (simp add: keywords_of_def SECTION_KEYWORDS_def)

text \<open>
  Claim C9. The runtime is any that iterates the two key sets, in which "." is no
  digit, and under which the keywords are their own normal forms. When a key is
  returned for a title, a level and a number: a strict-only key is returned only for
  a normalised title that is one of its keywords; and a key returned for a normalised
  title that is none of its keywords is one of \<open>einleitung\<close>, \<open>theorie\<close>, \<open>methode\<close>,
  \<open>fazit\<close>, the heading is top-level (the level is 1, or there is a number without
  dots), and the normalised title starts with a keyword of the key and a space, or the
  key is \<open>theorie\<close> and the pattern of step 4 is found in it.
\<close>

theorem section_key_resolution:
  assumes "iterates_sets U" "\<not> isdigit U 46" "keywords_normal U"
    and "find_section_key U title lvl num = Some k"
  shows "(k \<in> STRICT_ONLY_KEYS \<longrightarrow> normalize_title U title \<in> set (keywords_of k)) \<and>
         (normalize_title U title \<notin> set (keywords_of k) \<longrightarrow>
            k \<in> PREFIX_OK_KEYS \<and>
            (lvl = Some 1 \<or> (\<exists>n. num = Some n \<and> n \<noteq> [] \<and> 46 \<notin> set n)) \<and>
            ((\<exists>kw \<in> set (keywords_of k). startswith (normalize_title U title) (kw @ [32])) \<or>
             (k = ustr ''theorie'' \<and> re_search U theory_re (normalize_title U title) \<noteq> None)))"
proof -
  let ?t = "normalize_title U title"
  from assms(1) have it: "set (strict_iter U) = STRICT_ONLY_KEYS" "set (prefix_iter U) = PREFIX_OK_KEYS"
    by (simp_all add: iterates_sets_def)
  from find_section_key_cases[OF assms(4)]
  consider (s) "exact_strict U ?t = Some k" | (r) "exact_rest U ?t = Some k"
    | (p) "is_top_level U lvl num" "prefix_key U ?t = Some k"
    | (y) "is_top_level U lvl num" "re_search U theory_re ?t \<noteq> None" "k = ustr ''theorie''"
    by blast
  then show ?thesis
  proof cases
    case s
    from exact_strict_Some[OF s] exact_kw_normal[OF assms(3)] show ?thesis by blast
  next
    case r
    from exact_rest_Some[OF r] exact_kw_normal[OF assms(3)] show ?thesis by blast
  next
    case p
    from prefix_key_Some[OF p(2)] it have k: "k \<in> PREFIX_OK_KEYS" "prefix_kw U ?t (keywords_of k)"
      by auto
    from prefix_kw_normal[OF assms(3) k(2)] top_level_no_dots[OF assms(2) p(1)] k(1)
      prefix_not_strict[OF k(1)]
    show ?thesis by blast
  next
    case y
    from top_level_no_dots[OF assms(2) y(1)] theorie_prefix_ok prefix_not_strict[OF theorie_prefix_ok] y
    show ?thesis by blast
  qed
qed


text \<open>
  Under \<open>latin1\<close>: "Literaturverzeichnis" resolves to the strict-only key \<open>literatur\<close>
  and is one of its keywords; "Einleitung und Motivation" with level 1 resolves to
  \<open>einleitung\<close> by prefix, and to nothing with level 2 and the number 1.1;
  "Ergebnisse und Diskussion" with level 1 resolves to nothing.
\<close>

theorem section_key_resolution_witness:
  "iterates_sets latin1 \<and> \<not> isdigit latin1 46 \<and> keywords_normal latin1 \<and>
   find_section_key latin1 (ustr ''Literaturverzeichnis'') (Some 1) None = Some (ustr ''literatur'') \<and>
   normalize_title latin1 (ustr ''Literaturverzeichnis'') \<in> set (keywords_of (ustr ''literatur'')) \<and>
   find_section_key latin1 (ustr ''Einleitung und Motivation'') (Some 1) (Some (ustr ''1''))
     = Some (ustr ''einleitung'') \<and>
   ustr ''einleitung'' \<in> PREFIX_OK_KEYS \<and>
   (\<exists>kw \<in> set (keywords_of (ustr ''einleitung'')).
      startswith (normalize_title latin1 (ustr ''Einleitung und Motivation'')) (kw @ [32])) \<and>
   find_section_key latin1 (ustr ''Einleitung und Motivation'') (Some 2) (Some (ustr ''1.1''))
     = None \<and>
   find_section_key latin1 (ustr ''Ergebnisse und Diskussion'') (Some 1) (Some (ustr ''4''))
     = None"
proof -
  note rt = iterates_sets_latin1 dot_no_digit_latin1 keywords_normal_latin1
  have strict: "ustr ''literatur'' \<in> STRICT_ONLY_KEYS"
    by (simp add: STRICT_ONLY_KEYS_def)
  from section_key_resolution[OF rt skey_lit] strict
  have a: "normalize_title latin1 (ustr ''Literaturverzeichnis'') \<in> set (keywords_of (ustr ''literatur''))"
    by blast
  have no: "normalize_title latin1 (ustr ''Einleitung und Motivation'')
              \<notin> set (keywords_of (ustr ''einleitung''))"
    by (simp add: st_motivation keywords_einleitung)
  have ne: "ustr ''einleitung'' \<noteq> ustr ''theorie''"
    by simp
  from section_key_resolution[OF rt key_motivation] no ne
  have b: "ustr ''einleitung'' \<in> PREFIX_OK_KEYS"
    and c: "\<exists>kw \<in> set (keywords_of (ustr ''einleitung'')).
      startswith (normalize_title latin1 (ustr ''Einleitung und Motivation'')) (kw @ [32])"
    by blast+
  from rt skey_lit a key_motivation b c key_motivation_sub key_results_prefix
  show ?thesis by blast
qed

section \<open>Outline counters\<close>

lemma zero_fold_length [simp]: "length (fold (\<lambda>k c. c[k := 0::nat]) ks c) = length c"
  by (induction ks arbitrary: c) simp_all

lemma zero_fold_nth:
  "k < length c \<Longrightarrow> fold (\<lambda>k c. c[k := 0::nat]) ks c ! k = (if k \<in> set ks then 0 else c ! k)"
proof (induction ks arbitrary: c)
  case Nil
  then show ?case by simp
next
  case (Cons a ks)
  have "fold (\<lambda>k c. c[k := 0]) ks (c[a := 0]) ! k = (if k \<in> set ks then 0 else c[a := 0] ! k)"
    using Cons.prems by (intro Cons.IH) simp
  then show ?case using Cons.prems by (auto simp add: nth_list_update)
qed

lemma depth_of_range: "1 \<le> depth_of ilvl \<and> depth_of ilvl \<le> 9"
  unfolding depth_of_def by linarith

lemma auto_number_refines:
  assumes len: "length counts = 10"
  shows "length (fst (auto_number counts ilvl)) = 10 \<and>
         (\<forall>k < 10. fst (auto_number counts ilvl) ! k
                     = fst (number_at_depth (\<lambda>k. counts ! k) (depth_of ilvl)) k) \<and>
         snd (auto_number counts ilvl) = snd (number_at_depth (\<lambda>k. counts ! k) (depth_of ilvl))"
proof -
  let ?lvl = "depth_of ilvl"
  let ?c1 = "counts[?lvl := counts ! ?lvl + 1]"
  let ?c2 = "fold (\<lambda>k c. c[k := 0]) [?lvl + 1 ..< 10] ?c1"
  let ?c3 = "if ?lvl > 1 \<and> ?c2 ! 1 = 0 then ?c2[1 := 1] else ?c2"
  let ?f = "\<lambda>k. counts ! k"
  let ?d1 = "?f(?lvl := ?f ?lvl + 1)"
  let ?d2 = "\<lambda>k. if ?lvl < k then 0 else ?d1 k"
  let ?d3 = "if 1 < ?lvl \<and> ?d2 1 = 0 then ?d2(1 := 1) else ?d2"
  have r: "1 \<le> ?lvl" "?lvl \<le> 9" using depth_of_range by auto
  have an: "auto_number counts ilvl = (?c3, join [46] (map (\<lambda>k. str_nat (?c3 ! k)) [1 ..< ?lvl + 1]))"
    by (simp only: auto_number_def depth_of_def Let_def)
  have nd: "number_at_depth ?f ?lvl = (?d3, join [46] (map (\<lambda>k. str_nat (?d3 k)) [1 ..< ?lvl + 1]))"
    by (simp only: number_at_depth_def Let_def)
  have c1: "?c1 ! k = ?d1 k" if "k < 10" for k
    using that len by (auto simp add: nth_list_update)
  have c2: "?c2 ! k = ?d2 k" if "k < 10" for k
    using zero_fold_nth[of k ?c1 "[?lvl + 1 ..< 10]"] that len c1[of k] by auto
  have l2: "length ?c2 = 10" using len by simp
  have c3: "?c3 ! k = ?d3 k" if "k < 10" for k
  proof -
    define c2 where "c2 = ?c2"
    define d2 where "d2 = ?d2"
    have e: "c2 ! k = d2 k" "c2 ! 1 = d2 1" "length c2 = 10"
      using c2[OF that] c2[of 1] l2 by (simp_all add: c2_def d2_def)
    have "(if ?lvl > 1 \<and> c2 ! 1 = 0 then c2[1 := 1] else c2) ! k
          = (if 1 < ?lvl \<and> d2 1 = 0 then d2(1 := 1) else d2) k"
      using e that by (auto simp add: nth_list_update)
    then show ?thesis by (simp only: c2_def d2_def)
  qed
  define c3 where "c3 = ?c3"
  define d3 where "d3 = ?d3"
  have l3: "length c3 = 10" using len by (simp add: c3_def)
  have e3: "\<forall>k < 10. c3 ! k = d3 k" using c3 by (simp only: c3_def d3_def) blast
  have m: "map (\<lambda>k. str_nat (c3 ! k)) [1 ..< ?lvl + 1] = map (\<lambda>k. str_nat (d3 k)) [1 ..< ?lvl + 1]"
  proof (rule map_cong[OF refl])
    fix k assume "k \<in> set [1 ..< ?lvl + 1]"
    then have "k < 10" using r by auto
    with e3 show "str_nat (c3 ! k) = str_nat (d3 k)" by simp
  qed
  have an': "auto_number counts ilvl = (c3, join [46] (map (\<lambda>k. str_nat (c3 ! k)) [1 ..< ?lvl + 1]))"
    using an by (simp only: c3_def)
  have nd': "number_at_depth ?f ?lvl = (d3, join [46] (map (\<lambda>k. str_nat (d3 k)) [1 ..< ?lvl + 1]))"
    using nd by (simp only: d3_def)
  show ?thesis
    unfolding an' nd' fst_conv snd_conv m using l3 e3 by blast
qed

lemma seven_numbers:
  "auto_numbers (replicate 10 0) [0, 0, 1, 0, 1, 1, 0]
     = map ustr [''1'', ''2'', ''2.1'', ''3'', ''3.1'', ''3.2'', ''4'']"
  by (simp add: auto_number_def Let_def str_nat_def ustr_def numeral_eq_Suc upt_rec)

lemma classify_auto_numbered:
  assumes "auto_numbered U pb ilvl"
  shows "\<exists>h. classify U idx pb (ps, hs, cs) =
           (ps @ [p_text U (fst pb)], hs @ [h], fst (auto_number cs ilvl)) \<and>
           h_number h = Some (snd (auto_number cs ilvl)) \<and> h_para_index h = int idx"
proof -
  obtain p b where pb: "pb = (p, b)" by (cases pb)
  obtain c n where an: "auto_number cs ilvl = (c, n)" by (cases "auto_number cs ilvl")
  from assms pb have a: "\<not> b" "p_text U p \<noteq> []" "heading_level_from_style U (p_style U p) \<noteq> None"
    "re_match U NUMBERING_RE (p_text U p) = None" "p_ilvl U p = Some ilvl"
    by (simp_all add: auto_numbered_def)
  show ?thesis
    using a an by (simp add: classify_def pb Let_def)
qed

lemma loop_auto_numbered:
  assumes "list_all2 (auto_numbered U) w ilvls"
  shows "\<exists>new. fst (snd (classify_loop U idx w (ps, hs, cs))) = hs @ new \<and>
           map h_number new = map Some (auto_numbers cs ilvls)"
  using assms
proof (induction w ilvls arbitrary: idx ps hs cs rule: list_all2_induct)
  case Nil
  then show ?case by simp
next
  case (Cons pb w i ilvls)
  from classify_auto_numbered[OF Cons.hyps(1), of idx ps hs cs] obtain h where
    h: "classify U idx pb (ps, hs, cs) = (ps @ [p_text U (fst pb)], hs @ [h], fst (auto_number cs i))"
       "h_number h = Some (snd (auto_number cs i))"
    by blast
  from Cons.IH[of "Suc idx" "ps @ [p_text U (fst pb)]" "hs @ [h]" "fst (auto_number cs i)"]
  obtain new where n: "fst (snd (classify_loop U (Suc idx) w
        (ps @ [p_text U (fst pb)], hs @ [h], fst (auto_number cs i)))) = (hs @ [h]) @ new"
      "map h_number new = map Some (auto_numbers (fst (auto_number cs i)) ilvls)"
    by blast
  have "fst (snd (classify_loop U idx (pb # w) (ps, hs, cs))) = hs @ (h # new)"
    using h n by simp
  moreover have "map h_number (h # new) = map Some (auto_numbers cs (i # ilvls))"
    using h n by (simp split: prod.splits)
  ultimately show ?case by blast
qed

lemma p_text_styled:
  "p_text U (styled_paragraph style ilvl s) = strip U (replace_char 160 32 (nfkc U (ustr s)))"
  by (simp add: p_text_def styled_paragraph_def run_of_def)

lemma p_style_styled:
  "p_style U (styled_paragraph style ilvl s) = str_lower U (strip U (ustr style))"
  by (simp add: p_style_def styled_paragraph_def run_of_def find_child_def)

lemma p_ilvl_styled: "p_ilvl U (styled_paragraph style ilvl s) = py_int U (ustr ilvl)"
  by (simp add: p_ilvl_def styled_paragraph_def run_of_def find_child_def)

lemma kapitel:
  "strip latin1 (replace_char 160 32 (nfkc latin1 (ustr ''Kapitel''))) = ustr ''Kapitel''"
  "re_match latin1 NUMBERING_RE (ustr ''Kapitel'') = None"
  by (simp_all add: eval_defs)

lemmas style_eval = heading_level_from_style_def style_level_re_def style_level_re2_def
  heading_word_def eval_defs

lemma heading_styles:
  "heading_level_from_style latin1 (str_lower latin1 (strip latin1 (ustr ''Heading1''))) = Some 1"
  "heading_level_from_style latin1 (str_lower latin1 (strip latin1 (ustr ''Heading2''))) = Some 2"
  by (simp_all add: style_eval)

lemma list_levels:
  "py_int latin1 (ustr ''0'') = Some 0" "py_int latin1 (ustr ''1'') = Some 1"
  by (simp_all add: eval_defs)

lemma outline_paragraphs:
  "auto_numbered latin1 (styled_paragraph ''Heading1'' ''0'' ''Kapitel'', False) 0"
  "auto_numbered latin1 (styled_paragraph ''Heading2'' ''1'' ''Kapitel'', False) 1"
  by (simp_all add: auto_numbered_def p_text_styled p_style_styled p_ilvl_styled kapitel
        heading_styles list_levels)

lemma number_at_depth_agree:
  assumes "\<forall>k < 10. c k = c' k" "1 \<le> d" "d \<le> 9"
  shows "(\<forall>k < 10. fst (number_at_depth c d) k = fst (number_at_depth c' d) k) \<and>
         snd (number_at_depth c d) = snd (number_at_depth c' d)"
proof -
  let ?e = "\<lambda>c. (\<lambda>k. if d < k then 0 else (c(d := c d + 1)) k)"
  let ?f = "\<lambda>c. if 1 < d \<and> ?e c 1 = 0 then (?e c)(1 := 1) else ?e c"
  have nd: "number_at_depth c d = (?f c, join [46] (map (\<lambda>k. str_nat (?f c k)) [1 ..< d + 1]))" for c
    by (simp only: number_at_depth_def Let_def)
  have e: "?e c k = ?e c' k" if "k < 10" for k
    using that assms by auto
  have f: "?f c k = ?f c' k" if "k < 10" for k
    using e[OF that] e[of 1] by auto
  have m: "map (\<lambda>k. str_nat (?f c k)) [1 ..< d + 1] = map (\<lambda>k. str_nat (?f c' k)) [1 ..< d + 1]"
  proof (rule map_cong[OF refl])
    fix k assume "k \<in> set [1 ..< d + 1]"
    then have "k < 10" using assms by auto
    from f[OF this] show "str_nat (?f c k) = str_nat (?f c' k)" by simp
  qed
  show ?thesis
    unfolding nd fst_conv snd_conv m using f by blast
qed

lemma auto_number_rel:
  assumes "length cs = 10" "\<forall>k < 10. cs ! k = c k"
  shows "length (fst (auto_number cs i)) = 10 \<and>
         (\<forall>k < 10. fst (auto_number cs i) ! k = fst (number_at_depth c (depth_of i)) k) \<and>
         snd (auto_number cs i) = snd (number_at_depth c (depth_of i))"
  using auto_number_refines[OF assms(1), of i]
    number_at_depth_agree[of "\<lambda>k. cs ! k" c "depth_of i"] assms(2) depth_of_range[of i]
  by auto

lemma classify_keeps_counts:
  assumes "\<forall>ilvl. \<not> auto_numbered U pb ilvl"
  shows "snd (snd (classify U idx pb (ps, hs, cs))) = cs"
proof -
  obtain p b where pb: "pb = (p, b)" by (cases pb)
  from assms pb have n: "b \<or> p_text U p = [] \<or> heading_level_from_style U (p_style U p) = None
      \<or> re_match U NUMBERING_RE (p_text U p) \<noteq> None \<or> p_ilvl U p = None"
    by (cases "p_ilvl U p") (auto simp add: auto_numbered_def)
  show ?thesis
    using n by (auto simp add: classify_def pb Let_def split: option.splits prod.splits)
qed


lemma outline_numbers_length [simp]: "length (outline_numbers U c w) = length w"
  by (induction w arbitrary: c) (auto split: option.splits prod.splits)

lemma loop_outline:
  assumes "length cs = 10" "\<forall>k < 10. cs ! k = c k"
  shows "\<exists>new. fst (snd (classify_loop U idx w (ps, hs, cs))) = hs @ new \<and>
           (\<forall>h \<in> set new. int idx \<le> h_para_index h \<and> h_para_index h < int (idx + length w)) \<and>
           (\<forall>i n. i < length w \<and> outline_numbers U c w ! i = Some n \<longrightarrow>
                  numbers_at new (idx + i) = [Some n]) \<and>
           map h_number (filter (\<lambda>h. outline_numbers U c w ! (nat (h_para_index h) - idx) \<noteq> None) new)
             = filter (\<lambda>x. x \<noteq> None) (outline_numbers U c w)"
  using assms
proof (induction w arbitrary: idx ps hs cs c)
  case Nil
  then show ?case by (simp add: numbers_at_def)
next
  case (Cons pb w)
  obtain ps1 hs1 cs1 where st: "classify U idx pb (ps, hs, cs) = (ps1, hs1, cs1)"
    by (cases "classify U idx pb (ps, hs, cs)") auto
  show ?case
  proof (cases "\<exists>ilvl. auto_numbered U pb ilvl")
    case True
    then obtain ilvl where a: "auto_numbered U pb ilvl" by blast
    then have pi: "p_ilvl U (fst pb) = Some ilvl" by (simp add: auto_numbered_def)
    obtain c' n where nd: "number_at_depth c (depth_of ilvl) = (c', n)"
      by (cases "number_at_depth c (depth_of ilvl)") auto
    from classify_auto_numbered[OF a, of idx ps hs cs] st obtain h where
      h: "hs1 = hs @ [h]" "cs1 = fst (auto_number cs ilvl)"
         "h_number h = Some (snd (auto_number cs ilvl))" "h_para_index h = int idx"
      by auto
    from auto_number_rel[OF Cons.prems, of ilvl] nd h
    have r: "length cs1 = 10" "\<forall>k < 10. cs1 ! k = c' k" and hn: "h_number h = Some n"
      by simp_all
    have on: "outline_numbers U c (pb # w) = Some n # outline_numbers U c' w"
      using pi a nd by simp
    from Cons.IH[OF r, of "Suc idx" ps1 hs1] obtain new2 where
      n2: "fst (snd (classify_loop U (Suc idx) w (ps1, hs1, cs1))) = hs1 @ new2"
      and rng: "\<forall>h \<in> set new2. int (Suc idx) \<le> h_para_index h \<and> h_para_index h < int (Suc idx + length w)"
      and at: "\<forall>i n. i < length w \<and> outline_numbers U c' w ! i = Some n \<longrightarrow>
                  numbers_at new2 (Suc idx + i) = [Some n]"
      and fl: "map h_number (filter (\<lambda>h. outline_numbers U c' w ! (nat (h_para_index h) - Suc idx) \<noteq> None) new2)
             = filter (\<lambda>x. x \<noteq> None) (outline_numbers U c' w)"
      by blast
    define new where "new = h # new2"
    have 1: "fst (snd (classify_loop U idx (pb # w) (ps, hs, cs))) = hs @ new"
      using st h n2 by (simp add: new_def)
    have 2: "\<forall>h \<in> set new. int idx \<le> h_para_index h \<and> h_para_index h < int (idx + length (pb # w))"
      using h(4) rng by (auto simp add: new_def)
    have no: "filter (\<lambda>h'. h_para_index h' = int idx) new2 = []"
      using rng by (auto simp add: filter_empty_conv)
    have 3: "\<forall>i m. i < length (pb # w) \<and> outline_numbers U c (pb # w) ! i = Some m \<longrightarrow>
                  numbers_at new (idx + i) = [Some m]"
    proof (intro allI impI)
      fix i m assume im: "i < length (pb # w) \<and> outline_numbers U c (pb # w) ! i = Some m"
      show "numbers_at new (idx + i) = [Some m]"
      proof (cases i)
        case 0
        with im on have "m = n" by simp
        then show ?thesis using 0 no h(4) hn by (simp add: numbers_at_def new_def)
      next
        case (Suc j)
        with im on have j: "j < length w \<and> outline_numbers U c' w ! j = Some m" by simp
        have "numbers_at new (idx + i) = numbers_at new2 (Suc idx + j)"
          using Suc h(4) by (simp add: numbers_at_def new_def)
        with at j show ?thesis by simp
      qed
    qed
    have cg: "filter (\<lambda>h. outline_numbers U c (pb # w) ! (nat (h_para_index h) - idx) \<noteq> None) new2
            = filter (\<lambda>h. outline_numbers U c' w ! (nat (h_para_index h) - Suc idx) \<noteq> None) new2"
    proof (rule filter_cong[OF refl])
      fix x assume "x \<in> set new2"
      with rng have "int (Suc idx) \<le> h_para_index x" by blast
      then have "nat (h_para_index x) - idx = Suc (nat (h_para_index x) - Suc idx)" by linarith
      then show "(outline_numbers U c (pb # w) ! (nat (h_para_index x) - idx) \<noteq> None)
               = (outline_numbers U c' w ! (nat (h_para_index x) - Suc idx) \<noteq> None)"
        using on by simp
    qed
    have 4: "map h_number (filter (\<lambda>h. outline_numbers U c (pb # w) ! (nat (h_para_index h) - idx) \<noteq> None) new)
             = filter (\<lambda>x. x \<noteq> None) (outline_numbers U c (pb # w))"
      unfolding new_def using cg fl on h(4) hn by simp
    from 1 2 3 4 show ?thesis by blast
  next
    case False
    then have na: "\<forall>ilvl. \<not> auto_numbered U pb ilvl" by blast
    from classify_keeps_counts[OF na, of idx ps hs cs] st have cs1: "cs1 = cs" by simp
    from classify_headings[of U idx pb ps hs cs] st obtain new1 where
      n1: "hs1 = hs @ new1" "\<forall>h \<in> set new1. h_para_index h = int idx"
      by auto
    have on: "outline_numbers U c (pb # w) = None # outline_numbers U c w"
      using na by (simp split: option.splits)
    from Cons.IH[OF Cons.prems, of "Suc idx" ps1 hs1] cs1 obtain new2 where
      n2: "fst (snd (classify_loop U (Suc idx) w (ps1, hs1, cs1))) = hs1 @ new2"
      and rng: "\<forall>h \<in> set new2. int (Suc idx) \<le> h_para_index h \<and> h_para_index h < int (Suc idx + length w)"
      and at: "\<forall>i n. i < length w \<and> outline_numbers U c w ! i = Some n \<longrightarrow>
                  numbers_at new2 (Suc idx + i) = [Some n]"
      and fl: "map h_number (filter (\<lambda>h. outline_numbers U c w ! (nat (h_para_index h) - Suc idx) \<noteq> None) new2)
             = filter (\<lambda>x. x \<noteq> None) (outline_numbers U c w)"
      by blast
    define new where "new = new1 @ new2"
    have 1: "fst (snd (classify_loop U idx (pb # w) (ps, hs, cs))) = hs @ new"
      using st n1 n2 by (simp add: new_def)
    have 2: "\<forall>h \<in> set new. int idx \<le> h_para_index h \<and> h_para_index h < int (idx + length (pb # w))"
      using n1(2) rng by (auto simp add: new_def)
    have 3: "\<forall>i m. i < length (pb # w) \<and> outline_numbers U c (pb # w) ! i = Some m \<longrightarrow>
                  numbers_at new (idx + i) = [Some m]"
    proof (intro allI impI)
      fix i m assume im: "i < length (pb # w) \<and> outline_numbers U c (pb # w) ! i = Some m"
      show "numbers_at new (idx + i) = [Some m]"
      proof (cases i)
        case 0
        with im on show ?thesis by simp
      next
        case (Suc j)
        with im on have j: "j < length w \<and> outline_numbers U c w ! j = Some m" by simp
        have "filter (\<lambda>h. h_para_index h = int (idx + i)) new1 = []"
          using n1(2) Suc by (auto simp add: filter_empty_conv)
        then have "numbers_at new (idx + i) = numbers_at new2 (Suc idx + j)"
          using Suc by (simp add: numbers_at_def new_def)
        with at j show ?thesis by simp
      qed
    qed
    have cg: "filter (\<lambda>h. outline_numbers U c (pb # w) ! (nat (h_para_index h) - idx) \<noteq> None) new2
            = filter (\<lambda>h. outline_numbers U c w ! (nat (h_para_index h) - Suc idx) \<noteq> None) new2"
    proof (rule filter_cong[OF refl])
      fix x assume "x \<in> set new2"
      with rng have "int (Suc idx) \<le> h_para_index x" by blast
      then have "nat (h_para_index x) - idx = Suc (nat (h_para_index x) - Suc idx)" by linarith
      then show "(outline_numbers U c (pb # w) ! (nat (h_para_index x) - idx) \<noteq> None)
               = (outline_numbers U c w ! (nat (h_para_index x) - Suc idx) \<noteq> None)"
        using on by simp
    qed
    have d: "filter (\<lambda>h. outline_numbers U c (pb # w) ! (nat (h_para_index h) - idx) \<noteq> None) new1 = []"
      using n1(2) on by (auto simp add: filter_empty_conv)
    have 4: "map h_number (filter (\<lambda>h. outline_numbers U c (pb # w) ! (nat (h_para_index h) - idx) \<noteq> None) new)
             = filter (\<lambda>x. x \<noteq> None) (outline_numbers U c (pb # w))"
      unfolding new_def using cg d fl on by simp
    from 1 2 3 4 show ?thesis by blast
  qed
qed

lemma outline_auto_numbers:
  assumes "length cs = 10" "\<forall>k < 10. cs ! k = c k"
  shows "filter (\<lambda>x. x \<noteq> None) (outline_numbers U c w) = map Some (auto_numbers cs (auto_levels U w))"
  using assms
proof (induction w arbitrary: cs c)
  case Nil
  then show ?case by (simp add: auto_levels_def)
next
  case (Cons pb w)
  have al: "auto_levels U (pb # w) =
      (case p_ilvl U (fst pb) of None \<Rightarrow> []
       | Some ilvl \<Rightarrow> if auto_numbered U pb ilvl then [ilvl] else []) @ auto_levels U w"
    by (simp add: auto_levels_def)
  show ?case
  proof (cases "\<exists>ilvl. auto_numbered U pb ilvl")
    case True
    then obtain ilvl where a: "auto_numbered U pb ilvl" by blast
    then have pi: "p_ilvl U (fst pb) = Some ilvl" by (simp add: auto_numbered_def)
    obtain c' n where nd: "number_at_depth c (depth_of ilvl) = (c', n)"
      by (cases "number_at_depth c (depth_of ilvl)") auto
    obtain cs1 m where an: "auto_number cs ilvl = (cs1, m)"
      by (cases "auto_number cs ilvl") auto
    from auto_number_rel[OF Cons.prems, of ilvl] nd an
    have r: "length cs1 = 10" "\<forall>k < 10. cs1 ! k = c' k" and mn: "m = n"
      by simp_all
    from Cons.IH[OF r] show ?thesis
      using pi a nd an mn al by simp
  next
    case False
    then have "outline_numbers U c (pb # w) = None # outline_numbers U c w"
      "auto_levels U (pb # w) = auto_levels U w"
      using al by (simp_all split: option.splits)
    with Cons.IH[OF Cons.prems] show ?thesis by simp
  qed
qed

lemma localname_styled [simp]: "localname (styled_paragraph style ilvl s) = ustr ''p''"
  by (simp add: styled_paragraph_def)

lemma ns_kapitel: "normalize_simple latin1 (ustr ''Kapitel'') = ustr ''kapitel''"
  by (simp add: normalize_simple_def eval_defs)

lemma first_numbers:
  "auto_number (replicate 10 0) 0 = ([0, 1, 0, 0, 0, 0, 0, 0, 0, 0], ustr ''1'')"
  "auto_number [0, Suc 0, 0, 0, 0, 0, 0, 0, 0, 0] 0 = ([0, 2, 0, 0, 0, 0, 0, 0, 0, 0], ustr ''2'')"
  by (simp_all add: auto_number_def Let_def str_nat_def ustr_def numeral_eq_Suc upt_rec)

lemma cl_kapitel:
  assumes "auto_number cs 0 = (cs', n)" "n \<noteq> []" "count_char 46 n = 0"
  shows "classify latin1 idx (styled_paragraph ''Heading1'' ''0'' ''Kapitel'', False) (ps, hs, cs) =
     (ps @ [ustr ''Kapitel''],
      hs @ [\<lparr> h_text = ustr ''Kapitel'', h_level = 1, h_number = Some n,
                h_para_index = int idx \<rparr>], cs')"
  using assms
  by (simp add: classify_def p_text_styled p_style_styled p_ilvl_styled kapitel heading_styles
        list_levels truthy_def Let_def)

lemma extract_chapters_with_text:
  "extract_paragraphs_and_headings_from_xml latin1 (document_of chapters_with_text) =
     ([ustr ''Kapitel'', ustr ''Text...'', ustr ''Kapitel''],
      [\<lparr> h_text = ustr ''Kapitel'', h_level = 1, h_number = Some (ustr ''1''), h_para_index = 0 \<rparr>,
       \<lparr> h_text = ustr ''Kapitel'', h_level = 1, h_number = Some (ustr ''2''), h_para_index = 2 \<rparr>])"
proof -
  have w: "walk_body_paragraphs (Element (wname ''body'') [] None chapters_with_text)
      = [(styled_paragraph ''Heading1'' ''0'' ''Kapitel'', False), (plain_paragraph ''Text...'', False),
         (styled_paragraph ''Heading1'' ''0'' ''Kapitel'', False)]"
    by (simp add: walk_body_paragraphs_def chapters_with_text_def)
  have d: "ustr ''1'' \<noteq> []" "count_char 46 (ustr ''1'') = 0" "ustr ''2'' \<noteq> []"
    "count_char 46 (ustr ''2'') = 0"
    by (simp_all add: ustr_def count_char_def)
  have l: "classify_loop latin1 0 (walk_body_paragraphs (Element (wname ''body'') [] None chapters_with_text))
        ([], [], replicate 10 0)
      = ([ustr ''Kapitel'', ustr ''Text...'', ustr ''Kapitel''],
         [\<lparr> h_text = ustr ''Kapitel'', h_level = 1, h_number = Some (ustr ''1''), h_para_index = 0 \<rparr>,
          \<lparr> h_text = ustr ''Kapitel'', h_level = 1, h_number = Some (ustr ''2''), h_para_index = 2 \<rparr>],
         [0, 2, 0, 0, 0, 0, 0, 0, 0, 0])"
    unfolding w
    by (simp add: cl_kapitel[OF first_numbers(1) d(1,2)] cl_txt cl_kapitel[OF first_numbers(2) d(3,4)])
  have t: "find_toc_range latin1 [ustr ''Kapitel'', ustr ''Text...'', ustr ''Kapitel''] = None"
    by (simp add: find_toc_range_def ns_kapitel ns_txt)
  show ?thesis
    by (simp add: extract_paragraphs_and_headings_from_xml_def find_body l filter_toc_def t)
qed

lemma levels_outline_with_text: "auto_levels latin1 outline_with_text = [0, 0, 1, 0, 1, 1, 0]"
  by (simp add: auto_levels_def outline_with_text_def p_ilvl_styled p_ilvl_plain list_levels
        outline_paragraphs)

text \<open>
  Claim C5 as worded fails beyond the ninth depth: for a list level 9 on fresh counters
  the code counts at depth 9 and gives a number of nine parts, where the counter at
  depth \<open>ilvl + 1 = 10\<close> would give ten.
\<close>

theorem auto_number_depth_nine_counterexample:
  "snd (auto_number (replicate 10 0) 9) = ustr ''1.0.0.0.0.0.0.0.1'' \<and>
   snd (number_at_depth (\<lambda>k. 0) (nat (9 + 1))) = ustr ''1.0.0.0.0.0.0.0.0.1''"
  by (simp add: auto_number_def number_at_depth_def Let_def str_nat_def ustr_def
        numeral_eq_Suc upt_rec)

text \<open>
  Claim C5, amended in the depth only. The auto-number block counts at the depth
  \<open>max(1, min(9, ilvl + 1))\<close>: on a counter list of length ten the list keeps its
  length, and each of its entries and the number are those of the mechanism of the claim
  at that depth (increment, zero the deeper counters, set depth 1 to 1 if it is still
  zero, join the counters from 1 to the depth). The counters belong to the document:
  they start at zero, a paragraph that is not auto-numbered leaves them as they are, and
  for every body and every paragraph for which the numbering of the document has a
  number, the loop records exactly one heading, with that number; a heading that the
  extractor returns for such a paragraph has that number. When the auto-numbered
  paragraphs of a body have the list levels 0, 0, 1, 0, 1, 1, 0, whatever other
  paragraphs stand between them, their headings are numbered 1, 2, 2.1, 3, 3.1, 3.2, 4.
\<close>

theorem auto_number_at_clamped_depth:
  "(length counts = 10 \<longrightarrow>
      length (fst (auto_number counts ilvl)) = 10 \<and>
      (\<forall>k < 10. fst (auto_number counts ilvl) ! k
                  = fst (number_at_depth (\<lambda>k. counts ! k) (depth_of ilvl)) k) \<and>
      snd (auto_number counts ilvl) = snd (number_at_depth (\<lambda>k. counts ! k) (depth_of ilvl))) \<and>
   (list_all2 (auto_numbered U) w [0, 0, 1, 0, 1, 1, 0] \<longrightarrow>
      map h_number (fst (snd (classify_loop U idx w (ps, [], replicate 10 0))))
        = map (\<lambda>s. Some (ustr s)) [''1'', ''2'', ''2.1'', ''3'', ''3.1'', ''3.2'', ''4'']) \<and>
   ((\<forall>i. \<not> auto_numbered U pb i) \<longrightarrow> snd (snd (classify U idx pb (ps, hs, cs))) = cs) \<and>
   (\<forall>i n. i < length w \<and> outline_numbers U (\<lambda>k. 0) w ! i = Some n \<longrightarrow>
      numbers_at (fst (snd (classify_loop U 0 w ([], [], replicate 10 0)))) i = [Some n]) \<and>
   (find_descendant (wname ''body'') root = Some body \<longrightarrow>
      (\<forall>h \<in> set (snd (extract_paragraphs_and_headings_from_xml U root)). \<forall>n.
         outline_numbers U (\<lambda>k. 0) (walk_body_paragraphs body) ! nat (h_para_index h) = Some n
           \<longrightarrow> h_number h = Some n)) \<and>
   (auto_levels U w = [0, 0, 1, 0, 1, 1, 0] \<longrightarrow>
      map h_number (auto_headings U w (fst (snd (classify_loop U 0 w ([], [], replicate 10 0)))))
        = map (\<lambda>s. Some (ustr s)) [''1'', ''2'', ''2.1'', ''3'', ''3.1'', ''3.2'', ''4''])"
proof -
  have zero: "length (replicate 10 (0::nat)) = 10" "\<forall>k < 10. replicate 10 (0::nat) ! k = (\<lambda>k. 0) k"
    by simp_all
  have p1: "length counts = 10 \<longrightarrow>
      length (fst (auto_number counts ilvl)) = 10 \<and>
      (\<forall>k < 10. fst (auto_number counts ilvl) ! k
                  = fst (number_at_depth (\<lambda>k. counts ! k) (depth_of ilvl)) k) \<and>
      snd (auto_number counts ilvl) = snd (number_at_depth (\<lambda>k. counts ! k) (depth_of ilvl))"
    using auto_number_refines[of counts ilvl] by blast
  have p2: "list_all2 (auto_numbered U) w [0, 0, 1, 0, 1, 1, 0] \<longrightarrow>
      map h_number (fst (snd (classify_loop U idx w (ps, [], replicate 10 0))))
        = map (\<lambda>s. Some (ustr s)) [''1'', ''2'', ''2.1'', ''3'', ''3.1'', ''3.2'', ''4'']"
  proof
    assume a: "list_all2 (auto_numbered U) w [0, 0, 1, 0, 1, 1, 0]"
    from loop_auto_numbered[OF a, of idx ps "[]" "replicate 10 0"]
    have "map h_number (fst (snd (classify_loop U idx w (ps, [], replicate 10 0))))
          = map Some (auto_numbers (replicate 10 0) [0, 0, 1, 0, 1, 1, 0])"
      by auto
    then show "map h_number (fst (snd (classify_loop U idx w (ps, [], replicate 10 0))))
          = map (\<lambda>s. Some (ustr s)) [''1'', ''2'', ''2.1'', ''3'', ''3.1'', ''3.2'', ''4'']"
      unfolding seven_numbers by simp
  qed
  have p3: "(\<forall>i. \<not> auto_numbered U pb i) \<longrightarrow> snd (snd (classify U idx pb (ps, hs, cs))) = cs"
    using classify_keeps_counts[of U pb idx ps hs cs] by blast
  have loop: "\<exists>new. fst (snd (classify_loop U 0 v ([], [], replicate 10 0))) = new \<and>
           (\<forall>h \<in> set new. 0 \<le> h_para_index h \<and> h_para_index h < int (length v)) \<and>
           (\<forall>i n. i < length v \<and> outline_numbers U (\<lambda>k. 0) v ! i = Some n \<longrightarrow>
                  numbers_at new i = [Some n]) \<and>
           map h_number (auto_headings U v new)
             = filter (\<lambda>x. x \<noteq> None) (outline_numbers U (\<lambda>k. 0) v)" for v
    using loop_outline[OF zero, of U 0 v "[]" "[]"] by (simp add: auto_headings_def)
  have p4: "\<forall>i n. i < length w \<and> outline_numbers U (\<lambda>k. 0) w ! i = Some n \<longrightarrow>
      numbers_at (fst (snd (classify_loop U 0 w ([], [], replicate 10 0)))) i = [Some n]"
    using loop[of w] by blast
  have p5: "find_descendant (wname ''body'') root = Some body \<longrightarrow>
      (\<forall>h \<in> set (snd (extract_paragraphs_and_headings_from_xml U root)). \<forall>n.
         outline_numbers U (\<lambda>k. 0) (walk_body_paragraphs body) ! nat (h_para_index h) = Some n
           \<longrightarrow> h_number h = Some n)"
  proof (intro impI ballI allI)
    fix h n
    assume b: "find_descendant (wname ''body'') root = Some body"
      and h: "h \<in> set (snd (extract_paragraphs_and_headings_from_xml U root))"
      and o: "outline_numbers U (\<lambda>k. 0) (walk_body_paragraphs body) ! nat (h_para_index h) = Some n"
    define v where "v = walk_body_paragraphs body"
    define hs0 where "hs0 = fst (snd (classify_loop U 0 v ([], [], replicate 10 0)))"
    obtain ps1 cs1 where l: "classify_loop U 0 v ([], [], replicate 10 0) = (ps1, hs0, cs1)"
      by (cases "classify_loop U 0 v ([], [], replicate 10 0)") (auto simp add: hs0_def)
    have "snd (extract_paragraphs_and_headings_from_xml U root) = filter_toc U ps1 hs0"
      using b l by (simp add: extract_paragraphs_and_headings_from_xml_def v_def)
    with h filter_toc_subset[of U ps1 hs0] have hin: "h \<in> set hs0" by auto
    from loop[of v] hin have r: "0 \<le> h_para_index h" "h_para_index h < int (length v)"
      and at: "\<forall>i n. i < length v \<and> outline_numbers U (\<lambda>k. 0) v ! i = Some n \<longrightarrow>
                  numbers_at hs0 i = [Some n]"
      by (auto simp add: hs0_def)
    from r have i: "nat (h_para_index h) < length v" "int (nat (h_para_index h)) = h_para_index h"
      by simp_all
    from at i(1) o have "numbers_at hs0 (nat (h_para_index h)) = [Some n]"
      by (simp add: v_def)
    moreover have "h_number h \<in> set (numbers_at hs0 (nat (h_para_index h)))"
      using hin i(2) by (simp add: numbers_at_def)
    ultimately show "h_number h = Some n" by simp
  qed
  have p6: "auto_levels U w = [0, 0, 1, 0, 1, 1, 0] \<longrightarrow>
      map h_number (auto_headings U w (fst (snd (classify_loop U 0 w ([], [], replicate 10 0)))))
        = map (\<lambda>s. Some (ustr s)) [''1'', ''2'', ''2.1'', ''3'', ''3.1'', ''3.2'', ''4'']"
  proof
    assume a: "auto_levels U w = [0, 0, 1, 0, 1, 1, 0]"
    from loop[of w] have "map h_number (auto_headings U w (fst (snd (classify_loop U 0 w ([], [], replicate 10 0)))))
        = filter (\<lambda>x. x \<noteq> None) (outline_numbers U (\<lambda>k. 0) w)"
      by blast
    also have "\<dots> = map Some (auto_numbers (replicate 10 0) (auto_levels U w))"
      by (rule outline_auto_numbers[OF zero])
    finally show "map h_number (auto_headings U w (fst (snd (classify_loop U 0 w ([], [], replicate 10 0)))))
        = map (\<lambda>s. Some (ustr s)) [''1'', ''2'', ''2.1'', ''3'', ''3.1'', ''3.2'', ''4'']"
      unfolding a seven_numbers by simp
  qed
  from p1 p2 p3 p4 p5 p6 show ?thesis by (intro conjI)
qed

text \<open>
  Seven paragraphs with the styles Heading1 and Heading2 and the list levels 0, 0, 1, 0,
  1, 1, 0; a first heading at list level 1, numbered 1.1; the same seven paragraphs with
  lines of text and a table paragraph between them; and the document of a heading, a
  line of text and a heading, whose headings are numbered 1 and 2.
\<close>

theorem auto_number_at_clamped_depth_witness:
  "length (replicate 10 (0::nat)) = 10 \<and>
   snd (auto_number (replicate 10 0) 1) = ustr ''1.1'' \<and>
   list_all2 (auto_numbered latin1) seven_outline_paragraphs [0, 0, 1, 0, 1, 1, 0] \<and>
   map h_number (fst (snd (classify_loop latin1 0 seven_outline_paragraphs
                             ([], [], replicate 10 0))))
     = [Some (ustr ''1''), Some (ustr ''2''), Some (ustr ''2.1''), Some (ustr ''3''),
        Some (ustr ''3.1''), Some (ustr ''3.2''), Some (ustr ''4'')] \<and>
   auto_levels latin1 outline_with_text = [0, 0, 1, 0, 1, 1, 0] \<and>
   map h_number (auto_headings latin1 outline_with_text
                   (fst (snd (classify_loop latin1 0 outline_with_text ([], [], replicate 10 0)))))
     = [Some (ustr ''1''), Some (ustr ''2''), Some (ustr ''2.1''), Some (ustr ''3''),
        Some (ustr ''3.1''), Some (ustr ''3.2''), Some (ustr ''4'')] \<and>
   find_descendant (wname ''body'') (document_of chapters_with_text)
     = Some (Element (wname ''body'') [] None chapters_with_text) \<and>
   map h_number (snd (extract_paragraphs_and_headings_from_xml latin1
                        (document_of chapters_with_text)))
     = [Some (ustr ''1''), Some (ustr ''2'')]"
proof -
  have l: "length (replicate 10 (0::nat)) = 10" by simp
  have a: "list_all2 (auto_numbered latin1) seven_outline_paragraphs [0, 0, 1, 0, 1, 1, 0]"
    by (simp add: seven_outline_paragraphs_def outline_paragraphs)
  have n: "snd (number_at_depth (\<lambda>k. replicate 10 0 ! k) (depth_of 1)) = ustr ''1.1''"
    by (simp add: number_at_depth_def depth_of_def Let_def str_nat_def ustr_def
          numeral_eq_Suc upt_rec)
  note t = auto_number_at_clamped_depth[of "replicate 10 0" 1 latin1 seven_outline_paragraphs 0 "[]"]
  from t l n have w1: "snd (auto_number (replicate 10 0) 1) = ustr ''1.1''" by simp
  from t a have w2: "map h_number (fst (snd (classify_loop latin1 0 seven_outline_paragraphs
                             ([], [], replicate 10 0))))
     = [Some (ustr ''1''), Some (ustr ''2''), Some (ustr ''2.1''), Some (ustr ''3''),
        Some (ustr ''3.1''), Some (ustr ''3.2''), Some (ustr ''4'')]" by simp
  from auto_number_at_clamped_depth[of _ _ latin1 outline_with_text] levels_outline_with_text
  have w3: "map h_number (auto_headings latin1 outline_with_text
                   (fst (snd (classify_loop latin1 0 outline_with_text ([], [], replicate 10 0)))))
     = [Some (ustr ''1''), Some (ustr ''2''), Some (ustr ''2.1''), Some (ustr ''3''),
        Some (ustr ''3.1''), Some (ustr ''3.2''), Some (ustr ''4'')]" by simp
  have w4: "map h_number (snd (extract_paragraphs_and_headings_from_xml latin1
                        (document_of chapters_with_text)))
     = [Some (ustr ''1''), Some (ustr ''2'')]"
    by (simp add: extract_chapters_with_text)
  from l w1 a w2 levels_outline_with_text w3 find_body[of chapters_with_text] w4
  show ?thesis by (intro conjI)
qed

section \<open>The heading hierarchy rule on a long number\<close>

lemma ustr_append: "ustr (a @ b) = ustr a @ ustr b"
  by (simp add: ustr_def)

lemma ustr_long_number: "ustr long_number = replicate 4301 49"
  by (simp add: ustr_def long_number_def)

lemma strip_id:
  assumes "s \<noteq> []" "\<not> P (hd s)" "\<not> P (last s)"
  shows "rev (dropWhile P (rev (dropWhile P s))) = s"
proof -
  from assms(1,2) have a: "dropWhile P s = s" by (cases s) simp_all
  from assms(1,3) have "dropWhile P (rev s) = rev s"
    by (cases "rev s") (simp_all add: hd_rev)
  with a show ?thesis by simp
qed

lemma strip_fixed:
  "s \<noteq> [] \<Longrightarrow> \<not> isspace U (hd s) \<Longrightarrow> \<not> isspace U (last s) \<Longrightarrow> strip U s = s"
  using strip_id[of s "isspace U"] by (simp add: strip_def lstrip_def rstrip_def)

lemma rstrip_head:
  assumes "\<not> P c"
  shows "\<exists>ys. rev (dropWhile P (rev (c # xs))) = c # ys"
proof -
  have "dropWhile P (rev xs @ [c]) = dropWhile P (rev xs) @ [c]"
    using assms by (simp add: dropWhile_append3)
  then show ?thesis by simp
qed

lemma nfkc_below_160: "\<forall>c \<in> set s. c < 160 \<Longrightarrow> l1_nfkc s = s"
  by (induction s) (simp_all add: l1_nfkc_def l1_nfkc_char_def)

lemma replace_absent: "a \<notin> set s \<Longrightarrow> replace_char a b s = s"
  by (induction s) (simp_all add: replace_char_def)

lemma split_absent: "d \<notin> set s \<Longrightarrow> split_char d s = [s]"
  by (induction s) simp_all

lemma iter_greedy_stuck: "f cur = [] \<Longrightarrow> iter_greedy f n cur = [cur]"
  by (cases n) simp_all

lemma star_stuck: "rmatch U r cur = [] \<Longrightarrow> rmatch U (Star r) cur = [cur]"
  using iter_greedy_stuck[of "rmatch U r" cur "remaining cur"] by simp

lemma rmatch_dg:
  "rmatch latin1 dg (prev, [], caps) = []"
  "rmatch latin1 dg (prev, c # s, caps) = (if l1_isdecimal c then [(Some c, s, caps)] else [])"
  by (simp_all add: dg_def step_if_def latin1_sel)

lemma greedy_digits:
  assumes "case s of [] \<Rightarrow> True | c # _ \<Rightarrow> \<not> l1_isdecimal c" "n \<le> fuel"
  shows "\<exists>rest. iter_greedy (rmatch latin1 dg) fuel (prev, replicate n 49 @ s, caps)
           = ((if n = 0 then prev else Some 49), s, caps) # rest"
  using assms(2)
proof (induction n arbitrary: fuel prev)
  case 0
  have "rmatch latin1 dg (prev, s, caps) = []"
    using assms(1) by (cases s) (simp_all add: rmatch_dg)
  with iter_greedy_stuck[of "rmatch latin1 dg" "(prev, s, caps)" fuel] show ?case by simp
next
  case (Suc n)
  then obtain f where f: "fuel = Suc f" "n \<le> f" by (cases fuel) auto
  from Suc.IH[OF f(2), of "Some 49"] obtain rest where
    r: "iter_greedy (rmatch latin1 dg) f (Some 49, replicate n 49 @ s, caps)
          = (Some 49, s, caps) # rest"
    by auto
  have "iter_greedy (rmatch latin1 dg) fuel (prev, replicate (Suc n) 49 @ s, caps)
          = (Some 49, s, caps) # rest @ [(prev, replicate (Suc n) 49 @ s, caps)]"
    using r by (simp add: f(1) rmatch_dg l1_isdecimal_def remaining_def)
  then show ?case by simp
qed

lemma dotted_number_digits:
  "\<exists>rest. rmatch latin1 dotted_number (prev, replicate (Suc n) 49 @ 32 # s, caps)
           = (Some 49, 32 # s, caps) # rest"
proof -
  have nd: "case 32 # s of [] \<Rightarrow> True | c # _ \<Rightarrow> \<not> l1_isdecimal c"
    by (simp add: l1_isdecimal_def)
  from greedy_digits[OF nd, of n "length (replicate n 49 @ 32 # s)" "Some 49" caps]
  obtain rest where
    g: "iter_greedy (rmatch latin1 dg) (length (replicate n 49 @ 32 # s))
          (Some 49, replicate n 49 @ 32 # s, caps) = (Some 49, 32 # s, caps) # rest"
    by auto
  have p: "rmatch latin1 (rplus dg) (prev, replicate (Suc n) 49 @ 32 # s, caps)
          = (Some 49, 32 # s, caps) # rest"
    using g by (simp add: rplus_def rmatch_dg l1_isdecimal_def remaining_def)
  have "rmatch latin1 (Seq (Lit 46) (rplus dg)) (Some 49, 32 # s, caps) = []"
    by (simp add: step_if_def)
  from star_stuck[OF this]
  have st: "rmatch latin1 (Star (Seq (Lit 46) (rplus dg))) (Some 49, 32 # s, caps)
          = [(Some 49, 32 # s, caps)]" .
  show ?thesis
    unfolding dotted_number_def using p st by simp
qed

lemma numbering_tail:
  "rmatch latin1 (seqs [ropt (Lit 46), rplus sp, Grp (rplus Dot), Eol])
     (Some 49, ustr '' Einleitung'', [d])
   = [(Some 103, [], [d, ustr ''Einleitung''])]"
  by (simp add: eval_defs)

lemma numbering_long:
  "re_match latin1 NUMBERING_RE (replicate (Suc n) 49 @ ustr '' Einleitung'')
     = Some (Some 103, [], [replicate (Suc n) 49, ustr ''Einleitung''])"
proof -
  let ?s = "replicate (Suc n) 49 @ ustr '' Einleitung''"
  let ?cur = "(None, ?s, []) :: cursor"
  let ?tail = "seqs [ropt (Lit 46), rplus sp, Grp (rplus Dot), Eol]"
  have sp: "ustr '' Einleitung'' = 32 # ustr ''Einleitung''"
    by (simp add: ustr_def)
  have re: "NUMBERING_RE = Seq Bol (Seq (Star sp) (Seq (Grp dotted_number) ?tail))"
    by (simp add: NUMBERING_RE_def seqs_def)
  have a: "rmatch latin1 Bol ?cur = [?cur]" by simp
  have "rmatch latin1 sp ?cur = []"
    by (simp add: sp_def step_if_def latin1_sel l1_isspace_def)
  from star_stuck[OF this]
  have b: "rmatch latin1 (Star sp) ?cur = [?cur]" .
  from dotted_number_digits[of None n "ustr ''Einleitung''" "[]"] obtain rest where
    c: "rmatch latin1 dotted_number ?cur = (Some 49, ustr '' Einleitung'', []) # rest"
    by (auto simp add: sp)
  have tk: "take (Suc n) (replicate (Suc n) 49 @ ustr '' Einleitung'') = replicate (Suc n) (49::nat)"
    by simp
  have d: "rmatch latin1 (Grp dotted_number) ?cur
        = (Some 49, ustr '' Einleitung'', [replicate (Suc n) 49]) # map (capture ?cur) rest"
    using c tk by (simp add: capture_def remaining_def del: replicate.simps take_Suc_Cons)
  have "rmatch latin1 NUMBERING_RE ?cur
        = rmatch latin1 ?tail (Some 49, ustr '' Einleitung'', [replicate (Suc n) 49])
          @ concat (map (rmatch latin1 ?tail) (map (capture ?cur) rest))"
    by (simp only: re rmatch.simps(5) a b d list.map concat.simps append_Nil2)
  then show ?thesis
    unfolding re_match_def first_match_def numbering_tail by simp
qed


lemma long_text_eq:
  "ustr (long_number @ '' Einleitung'') = replicate 4301 49 @ ustr '' Einleitung''"
  by (simp add: ustr_append ustr_long_number)

lemma numbering_long_number:
  "re_match latin1 NUMBERING_RE (ustr (long_number @ '' Einleitung''))
     = Some (Some 103, [], [ustr long_number, ustr ''Einleitung''])"
  using numbering_long[of 4300] by (simp add: long_text_eq ustr_long_number)

lemma long_number_facts:
  "long_number \<noteq> []" "ustr long_number \<noteq> []" "46 \<notin> set (ustr long_number)" "count_char 46 (ustr long_number) = 0"
  "hd (ustr long_number) = 49" "last (ustr long_number) = 49"
  "length (filter l1_isdecimal (ustr long_number)) = 4301"
  "list_all l1_isdigit (ustr long_number)"
  by (simp_all add: ustr_long_number count_char_def l1_isdecimal_def l1_isdigit_def list_all_iff)
    (simp add: long_number_def)

lemma long_text_facts:
  "ustr (long_number @ '' Einleitung'') \<noteq> []"
  "hd (ustr (long_number @ '' Einleitung'')) = 49"
  "last (ustr (long_number @ '' Einleitung'')) = 103"
  "\<forall>c \<in> set (ustr (long_number @ '' Einleitung'')). c < 160"
  by (simp_all add: long_text_eq) (simp_all add: ustr_def)

lemma pt_long:
  "p_text latin1 (plain_paragraph (long_number @ '' Einleitung'')) = ustr (long_number @ '' Einleitung'')"
proof -
  let ?t = "ustr (long_number @ '' Einleitung'')"
  have n: "nfkc latin1 ?t = ?t"
    using nfkc_below_160[OF long_text_facts(4)] by (simp add: latin1_sel)
  have "160 \<notin> set ?t" using long_text_facts(4) by auto
  then have r: "replace_char 160 32 ?t = ?t" by (rule replace_absent)
  have s: "strip latin1 ?t = ?t"
    by (rule strip_fixed) (simp_all add: long_text_facts latin1_sel l1_isspace_def)
  show ?thesis unfolding p_text_plain n r s ..
qed

lemma key_einleitung_any:
  "find_section_key latin1 (ustr ''Einleitung'') lvl num = Some (ustr ''einleitung'')"
  unfolding key_tables by (simp add: key_eval)

lemma strip_einleitung: "strip latin1 (ustr ''Einleitung'') = ustr ''Einleitung''"
  by (simp add: eval_defs)

lemma cl_long:
  "classify latin1 idx (plain_paragraph (long_number @ '' Einleitung''), False) (ps, hs, cs) =
     (ps @ [ustr (long_number @ '' Einleitung'')],
      hs @ [\<lparr> h_text = ustr ''Einleitung'', h_level = 1, h_number = Some (ustr long_number),
                h_para_index = int idx \<rparr>], cs)"
  by (simp add: classify_def pt_long p_style_plain p_ilvl_plain level_empty numbering_long_number
        long_text_facts long_number_facts key_einleitung_any strip_einleitung number_level_def
        truthy_def group_def groups_def Let_def)

lemma normalize_simple_first:
  "\<exists>ys. normalize_simple latin1 (49 # s) = 49 # ys"
proof -
  have n: "nfkc latin1 (49 # s) = 49 # l1_nfkc s"
    by (simp add: latin1_sel l1_nfkc_def l1_nfkc_char_def)
  have r: "replace_char 160 32 (49 # l1_nfkc s) = 49 # replace_char 160 32 (l1_nfkc s)"
    by (simp add: replace_char_def)
  define t where "t = replace_char 160 32 (l1_nfkc s)"
  have "first_match latin1 spaces_re (None, 49 # t, []) = None"
    by (simp add: first_match_def spaces_re_def rplus_def sp_def step_if_def latin1_sel
          l1_isspace_def)
  then have "re_scan latin1 spaces_re None (49 # t) = Plain 49 # re_scan latin1 spaces_re (Some 49) t"
    by (subst re_scan.simps) simp
  then obtain u where u: "re_sub latin1 spaces_re [32] (49 # t) = 49 # u"
    by (simp add: re_sub_def)
  have ns: "\<not> isspace latin1 49" by (simp add: latin1_sel l1_isspace_def)
  from rstrip_head[of "isspace latin1" 49 u] ns obtain ys where "strip latin1 (49 # u) = 49 # ys"
    by (auto simp add: strip_def lstrip_def rstrip_def)
  then have "normalize_simple latin1 (49 # s) = 49 # map l1_lower_char ys"
    unfolding normalize_simple_def Let_def n r t_def[symmetric] u
    by (simp add: latin1_sel l1_lower_char_def)
  then show ?thesis by blast
qed

lemma long_text_no_title:
  "find_title_index latin1 [ustr (long_number @ '' Einleitung'')] 0 = None"
proof -
  obtain t where "ustr (long_number @ '' Einleitung'') = 49 # t"
    using long_text_facts(1,2) by (cases "ustr (long_number @ '' Einleitung'')") auto
  with normalize_simple_first[of t] obtain ys where
    "normalize_simple latin1 (ustr (long_number @ '' Einleitung'')) = 49 # ys"
    by auto
  moreover have "ustr ''inhaltsverzeichnis'' \<noteq> 49 # ys"
    by (simp add: ustr_def)
  ultimately show ?thesis by simp
qed

lemma extract_long_number:
  "extract_paragraphs_and_headings_from_xml latin1 long_number_document =
     ([ustr (long_number @ '' Einleitung'')],
      [\<lparr> h_text = ustr ''Einleitung'', h_level = 1, h_number = Some (ustr long_number),
          h_para_index = 0 \<rparr>])"
proof -
  have a: "find_title_index latin1 (map ustr [long_number @ '' Einleitung'']) 0 = None"
    using long_text_no_title by simp
  have b: "classify_loop latin1 0
             (map (\<lambda>s. (plain_paragraph s, False)) [long_number @ '' Einleitung''])
             ([], [], replicate 10 0)
           = (map ustr [long_number @ '' Einleitung''],
              [\<lparr> h_text = ustr ''Einleitung'', h_level = 1, h_number = Some (ustr long_number),
                  h_para_index = 0 \<rparr>], replicate 10 0)"
    by (simp add: cl_long)
  from extraction_without_toc[OF a b] show ?thesis
    by (simp add: long_number_document_def)
qed

lemma int_long_number: "py_int latin1 (ustr long_number) = None"
proof -
  define d where "d = ustr long_number"
  have f: "d \<noteq> []" "hd d = 49" "last d = 49" "length (filter l1_isdecimal d) = 4301"
    using long_number_facts by (simp_all add: d_def)
  have "rev (dropWhile int_space (rev (dropWhile int_space d))) = d"
    by (rule strip_id) (simp_all add: f int_space_def)
  moreover obtain r where "d = 49 # r" using f(1,2) by (cases d) auto
  ultimately show ?thesis
    using f(4) unfolding d_def[symmetric]
    by (simp add: latin1_sel l1_int_def unsigned_value_def int_max_str_digits_def l1_isdecimal_def
          Let_def)
qed

lemma parse_long_number: "parse_number latin1 (ustr long_number) = Inl ValueError"
proof -
  have s: "strip latin1 (ustr long_number) = ustr long_number"
    by (rule strip_fixed) (simp_all add: long_number_facts latin1_sel l1_isspace_def)
  show ?thesis
    by (simp add: parse_number_def split_absent[OF long_number_facts(3)] s str_isdigit_def
          long_number_facts latin1_sel int_long_number[unfolded latin1_sel])
qed

text \<open>
  Claim C2, at a document on which it fails. \<open>HeadingHierarchyRule\<close> is in the
  registry. The document has one paragraph, a number of 4301 digits followed by
  "Einleitung". The extractor records it as the heading "Einleitung" with that number:
  the title is a known section. \<open>_parse_number\<close> then gives the number to \<open>int(_)\<close>,
  which refuses more than 4300 digits with \<open>ValueError\<close>: \<open>run\<close> returns no list at
  all.
\<close>

theorem heading_hierarchy_rule_raises:
  "HeadingHierarchyRule \<in> set get_all_rules \<and>
   d_headings (extract_docx latin1 (ustr ''thesis.docx'') 0 long_number_document)
     = [\<lparr> h_text = ustr ''Einleitung'', h_level = 1, h_number = Some (ustr long_number),
          h_para_index = 0 \<rparr>] \<and>
   HeadingHierarchyRule_run latin1
     (extract_docx latin1 (ustr ''thesis.docx'') 0 long_number_document) None = Inl ValueError"
proof -
  have h: "d_headings (extract_docx latin1 (ustr ''thesis.docx'') 0 long_number_document)
     = [\<lparr> h_text = ustr ''Einleitung'', h_level = 1, h_number = Some (ustr long_number),
          h_para_index = 0 \<rparr>]"
    by (simp add: extract_docx_def extract_long_number split: prod.splits)
  have "HeadingHierarchyRule_run latin1
     (extract_docx latin1 (ustr ''thesis.docx'') 0 long_number_document) None = Inl ValueError"
    unfolding HeadingHierarchyRule_run_def h
    by (simp add: truthy_def long_number_facts parse_long_number Let_def)
  with h show ?thesis by (simp add: get_all_rules_def)
qed

end
